theory Spec2Isabelle
  imports Main "HOL-Library.AList"
begin

section \<open>Data model (types.ts, config.ts)\<close>

text \<open>
  \<^verbatim>\<open>SessionStatus\<close> is the string union of types.ts. Strings stay strings; a JavaScript
  \<^verbatim>\<open>Record<string, string>\<close> and a \<^verbatim>\<open>Map\<close> are association lists in insertion order
  (\<open>AList.update\<close> keeps the place of an existing key and appends a new one, as
  \<^verbatim>\<open>Map.set\<close> and property assignment do).
\<close>

datatype SessionStatus = Pending | Queued | Running | Completed | Error

record session =
  sid :: string
  ticker :: string
  stockName :: string
  market :: string
  model :: string
  startDate :: string
  endDate :: string
  userId :: string
  status :: SessionStatus
  decision :: string
  progress :: "string list"
  reports :: "(string \<times> string) list"
  createdAt :: string
  errorMsg :: string
  currentAgent :: string
  x_analysts :: "string list option"

text \<open>
  \<open>sid\<close> is the field \<^verbatim>\<open>id\<close>; \<open>x_analysts\<close> is the untyped property \<^verbatim>\<open>_analysts\<close> that
  \<^verbatim>\<open>startSession\<close> stashes on the object (\<open>None\<close> when it was never assigned).
\<close>

record SessionSummary =
  sum_id :: string
  sum_ticker :: string
  sum_stockName :: string
  sum_market :: string
  sum_model :: string
  sum_startDate :: string
  sum_endDate :: string
  sum_userId :: string
  sum_status :: SessionStatus
  sum_decision :: string
  sum_progress :: "string list"
  sum_createdAt :: string
  sum_errorMsg :: string
  sum_currentAgent :: string
  queuePosition :: "nat option"

definition AGENT_ORDER :: "string list" where
  "AGENT_ORDER =
    [''Market Analyst'', ''Social Analyst'', ''News Analyst'', ''Fundamentals Analyst'',
     ''Bull Researcher'', ''Bear Researcher'', ''Research Manager'', ''Trader'',
     ''Risky Analyst'', ''Safe Analyst'', ''Neutral Analyst'', ''Risk Manager'',
     ''Portfolio Manager'']"

text \<open>JavaScript truthiness of a string, and of a \<^verbatim>\<open>string | null | undefined\<close>.\<close>

definition truthy :: "string \<Rightarrow> bool" where
  "truthy s = (s \<noteq> [])"

definition truthy_opt :: "string option \<Rightarrow> bool" where
  "truthy_opt x = (case x of None \<Rightarrow> False | Some s \<Rightarrow> truthy s)"

text \<open>\<^verbatim>\<open>Array.prototype.indexOf\<close>: the first index, or -1.\<close>

fun indexOf :: "'a list \<Rightarrow> 'a \<Rightarrow> int" where
  "indexOf [] a = -1"
| "indexOf (x # xs) a =
     (if x = a then 0 else (let i = indexOf xs a in if i < 0 then -1 else i + 1))"

definition getNextAgent :: "string \<Rightarrow> string" where
  "getNextAgent agent =
     (let idx = indexOf AGENT_ORDER agent
      in if idx \<ge> 0 \<and> idx + 1 < int (length AGENT_ORDER)
         then AGENT_ORDER ! nat (idx + 1) else '''')"

section \<open>Numbers of the queue scan and the list sort\<close>

text \<open>
  \<^verbatim>\<open>new Date(s).getTime()\<close> is a built-in of the runtime: it is a parameter
  \<open>gt :: string \<Rightarrow> int option\<close> of the functions that call it, \<open>None\<close> standing for
  \<^verbatim>\<open>NaN\<close> (an unparseable date). \<open>jsnum\<close> adds the \<^verbatim>\<open>Infinity\<close> the scan starts from.
\<close>

datatype jsnum = NaN | Num int | Infinity

definition getTime :: "(string \<Rightarrow> int option) \<Rightarrow> string \<Rightarrow> jsnum" where
  "getTime gt s = (case gt s of None \<Rightarrow> NaN | Some t \<Rightarrow> Num t)"

fun js_less :: "jsnum \<Rightarrow> jsnum \<Rightarrow> bool" where
  "js_less (Num a) (Num b) = (a < b)"
| "js_less (Num a) Infinity = True"
| "js_less _ _ = False"

section \<open>The session manager's state\<close>

text \<open>
  Session objects are shared between the store and the background tasks, so they live in
  an explicit heap of object references. \<open>sessions\<close> is the \<^verbatim>\<open>Map<string, Session>\<close>,
  \<open>runningTasks\<close> the \<^verbatim>\<open>Map<string, AbortController>\<close> (a controller is a number, \<open>aborted\<close>
  the set of controllers whose \<^verbatim>\<open>abort()\<close> was called), \<open>sessionsFile\<close> the array last
  written to \<^verbatim>\<open>sessions.json\<close> (\<open>None\<close>: no file), \<open>published\<close> the log of
  \<^verbatim>\<open>sseManager.publish\<close> calls, and \<open>tasks\<close> the suspended \<^verbatim>\<open>runAnalysis\<close> calls, each
  with its captured arguments and local variables.
\<close>

record task =
  t_sessionId :: string
  t_session :: nat
  t_analysts :: "string list"
  t_currentAgent :: string
  t_accumulatedContent :: string
  t_tokenCount :: nat

record manager =
  heap :: "nat \<Rightarrow> session"
  nextRef :: nat
  sessions :: "(string \<times> nat) list"
  runningTasks :: "(string \<times> nat) list"
  aborted :: "nat set"
  nextController :: nat
  tasks :: "(nat \<times> task) list"
  sessionsFile :: "session list option"
  published :: "(string \<times> session) list"

definition assign :: "nat \<Rightarrow> (session \<Rightarrow> session) \<Rightarrow> manager \<Rightarrow> manager" where
  "assign r f st = st\<lparr>heap := (heap st)(r := f (heap st r))\<rparr>"

definition snapshot :: "manager \<Rightarrow> session list" where
  "snapshot st = map (heap st) (map snd (sessions st))"

definition saveSessions :: "manager \<Rightarrow> manager" where
  "saveSessions st = st\<lparr>sessionsFile := Some (snapshot st)\<rparr>"

definition publish :: "string \<Rightarrow> nat \<Rightarrow> manager \<Rightarrow> manager" where
  "publish sessionId r st = st\<lparr>published := published st @ [(sessionId, heap st r)]\<rparr>"

section \<open>SessionManager (session-manager.ts)\<close>

record params =
  p_ticker :: string
  p_stockName :: string
  p_market :: string
  p_model :: string
  p_startDate :: string
  p_endDate :: string
  p_userId :: string

text \<open>
  \<^verbatim>\<open>createSession\<close>: the generated id and the formatted clock reading are arguments.
  The result is the reference of the new object.
\<close>

definition createSession :: "string \<Rightarrow> string \<Rightarrow> params \<Rightarrow> manager \<Rightarrow> nat \<times> manager" where
  "createSession newId now p st =
     (let r = nextRef st;
          s = \<lparr>sid = newId, ticker = p_ticker p, stockName = p_stockName p,
               market = p_market p, model = p_model p, startDate = p_startDate p,
               endDate = p_endDate p, userId = p_userId p, status = Pending,
               decision = '''', progress = [], reports = [], createdAt = now,
               errorMsg = '''', currentAgent = '''', x_analysts = None\<rparr>;
          st1 = st\<lparr>heap := (heap st)(r := s), nextRef := Suc r,
                    sessions := AList.update newId r (sessions st)\<rparr>
      in (r, saveSessions st1))"

text \<open>
  \<^verbatim>\<open>getSession\<close>: the optional \<^verbatim>\<open>userId\<close> is \<open>None\<close> when undefined, the optional
  \<^verbatim>\<open>isAdmin\<close> is \<open>False\<close> when undefined; the result is the stored object or \<open>None\<close> for
  \<^verbatim>\<open>null\<close>.
\<close>

definition getSession :: "string \<Rightarrow> string option \<Rightarrow> bool \<Rightarrow> manager \<Rightarrow> nat option" where
  "getSession sessionId uid isAdmin st =
     (case map_of (sessions st) sessionId of
        None \<Rightarrow> None
      | Some r \<Rightarrow>
          if isAdmin then Some r
          else if truthy_opt uid \<and> truthy (userId (heap st r)) \<and> Some (userId (heap st r)) \<noteq> uid
          then None
          else Some r)"

definition getUserRunningSession :: "string \<Rightarrow> manager \<Rightarrow> nat option" where
  "getUserRunningSession u st =
     find (\<lambda>r. status (heap st r) = Running \<and> userId (heap st r) = u) (map snd (sessions st))"

definition deleteSession :: "string \<Rightarrow> manager \<Rightarrow> bool \<times> manager" where
  "deleteSession sessionId st =
     (case map_of (sessions st) sessionId of
        None \<Rightarrow> (False, st)
      | Some r \<Rightarrow>
          (let st1 = (case map_of (runningTasks st) sessionId of
                        None \<Rightarrow> st
                      | Some c \<Rightarrow> st\<lparr>aborted := insert c (aborted st),
                                     runningTasks := AList.delete sessionId (runningTasks st)\<rparr>);
               st2 = st1\<lparr>sessions := AList.delete sessionId (sessions st1)\<rparr>
           in (True, saveSessions st2)))"

text \<open>
  \<^verbatim>\<open>startSessionNow\<close> marks the session running and calls \<^verbatim>\<open>runAnalysis\<close>, which runs up
  to its first \<^verbatim>\<open>await\<close>: it looks the session up, builds the request and suspends on the
  feed. That suspended call is the new entry of \<open>tasks\<close>, under its controller.
\<close>

definition startSessionNow :: "string \<Rightarrow> string list \<Rightarrow> manager \<Rightarrow> manager" where
  "startSessionNow sessionId analysts st =
     (case map_of (sessions st) sessionId of
        None \<Rightarrow> st
      | Some r \<Rightarrow>
          (let st1 = assign r (\<lambda>s. s\<lparr>status := Running,
                         currentAgent := (case AGENT_ORDER of [] \<Rightarrow> '''' | a # _ \<Rightarrow> if truthy a then a else '''')\<rparr>) st;
               st2 = publish sessionId r (saveSessions st1);
               c = nextController st2
           in st2\<lparr>nextController := Suc c,
                  runningTasks := AList.update sessionId c (runningTasks st2),
                  tasks := AList.update c
                     \<lparr>t_sessionId = sessionId, t_session = r, t_analysts = analysts,
                      t_currentAgent = '''', t_accumulatedContent = '''', t_tokenCount = 0\<rparr>
                     (tasks st2)\<rparr>))"

definition startSession :: "string \<Rightarrow> string list \<Rightarrow> manager \<Rightarrow> manager" where
  "startSession sessionId analysts st =
     (case map_of (sessions st) sessionId of
        None \<Rightarrow> st
      | Some r \<Rightarrow>
          (let st1 = assign r (\<lambda>s. s\<lparr>x_analysts := Some analysts\<rparr>) st
           in case getUserRunningSession (userId (heap st1 r)) st1 of
                Some rr \<Rightarrow> publish sessionId r (saveSessions (assign r (\<lambda>s. s\<lparr>status := Queued\<rparr>) st1))
              | None \<Rightarrow> startSessionNow sessionId analysts st1))"

text \<open>
  The scan of \<^verbatim>\<open>startNextQueuedSession\<close>: the accumulator is the pair
  (\<^verbatim>\<open>nextSession\<close>, \<^verbatim>\<open>earliestTime\<close>), the loop runs over the store in insertion order.
\<close>

definition scanQueued ::
  "(string \<Rightarrow> int option) \<Rightarrow> string \<Rightarrow> (nat \<Rightarrow> session) \<Rightarrow> nat option \<times> jsnum \<Rightarrow> nat \<Rightarrow> nat option \<times> jsnum" where
  "scanQueued gt u h acc r =
     (if status (h r) = Queued \<and> userId (h r) = u
      then (let time = getTime gt (createdAt (h r))
            in if js_less time (snd acc) then (Some r, time) else acc)
      else acc)"

definition defaultAnalysts :: "string list" where
  "defaultAnalysts = [''market'', ''social'', ''news'', ''fundamentals'']"

definition startNextQueuedSession :: "(string \<Rightarrow> int option) \<Rightarrow> string \<Rightarrow> manager \<Rightarrow> manager" where
  "startNextQueuedSession gt u st =
     (case fst (foldl (scanQueued gt u (heap st)) (None, Infinity) (map snd (sessions st))) of
        None \<Rightarrow> st
      | Some r \<Rightarrow>
          startSessionNow (sid (heap st r))
            (case x_analysts (heap st r) of None \<Rightarrow> defaultAnalysts | Some a \<Rightarrow> a) st)"

section \<open>The aggregator task (runAnalysis)\<close>

text \<open>
  One line of the engine's feed, as \<^verbatim>\<open>JSON.parse\<close> delivers it. \<open>OtherType\<close> is any
  \<^verbatim>\<open>type\<close> that no \<^verbatim>\<open>case\<close> of the \<^verbatim>\<open>switch\<close> matches.
\<close>

datatype chunk_type =
  Heartbeat | NodeStart | Token | NodeEnd | Complete | QuotaError | TimeoutError | ErrorEvent
  | OtherType string

record chunk =
  ctype :: chunk_type
  agent :: "string option"
  content :: "string option"

text \<open>
  What the \<^verbatim>\<open>for await\<close> receives when the task resumes: the next chunk, the end of the
  stream, or an exception of the client (\<^verbatim>\<open>error.message\<close>, \<open>None\<close> when undefined).
\<close>

datatype feed = Next chunk | Done | Throws "string option"

datatype outcome = Continue task | Return

text \<open>A field assignment on the session followed by \<^verbatim>\<open>saveSessions()\<close> and \<^verbatim>\<open>publish\<close>, as every case but the token has it.\<close>

definition assignSavePublish :: "string \<Rightarrow> nat \<Rightarrow> (session \<Rightarrow> session) \<Rightarrow> manager \<Rightarrow> manager" where
  "assignSavePublish sessionId r f st = publish sessionId r (saveSessions (assign r f st))"

text \<open>The body of the loop, from the abort check to the end of the \<^verbatim>\<open>switch\<close>.\<close>

definition foldChunk :: "nat \<Rightarrow> chunk \<Rightarrow> task \<Rightarrow> manager \<Rightarrow> outcome \<times> manager" where
  "foldChunk signal ch t st =
     (let r = t_session t; sessionId = t_sessionId t
      in if signal \<in> aborted st then (Return, st)
      else case ctype ch of
        Heartbeat \<Rightarrow> (Continue t, st)
      | NodeStart \<Rightarrow>
          (case agent ch of
             Some a \<Rightarrow>
               if truthy a
               then (Continue (t\<lparr>t_currentAgent := a, t_accumulatedContent := '''', t_tokenCount := 0\<rparr>),
                     assignSavePublish sessionId r (\<lambda>s. s\<lparr>currentAgent := a\<rparr>) st)
               else (Continue t, st)
           | None \<Rightarrow> (Continue t, st))
      | Token \<Rightarrow>
          (case (agent ch, content ch) of
             (Some a, Some c) \<Rightarrow>
               if truthy a \<and> truthy c
               then (let acc = t_accumulatedContent t @ c
                     in (Continue (t\<lparr>t_accumulatedContent := acc, t_tokenCount := Suc (t_tokenCount t)\<rparr>),
                         publish sessionId r
                           (assign r (\<lambda>s. s\<lparr>reports := AList.update a acc (reports s)\<rparr>) st)))
               else (Continue t, st)
           | _ \<Rightarrow> (Continue t, st))
      | NodeEnd \<Rightarrow>
          (let t' = t\<lparr>t_currentAgent := '''', t_accumulatedContent := ''''\<rparr>
           in case (agent ch, content ch) of
             (Some a, Some c) \<Rightarrow>
               if truthy a \<and> truthy c
               then (Continue t',
                     assignSavePublish sessionId r
                       (\<lambda>s. s\<lparr>reports := AList.update a c (reports s),
                              progress := progress s @ [a],
                              currentAgent := getNextAgent a\<rparr>) st)
               else (Continue t', st)
           | _ \<Rightarrow> (Continue t', st))
      | Complete \<Rightarrow>
          (Return, assignSavePublish sessionId r
             (\<lambda>s. s\<lparr>decision := (case content ch of None \<Rightarrow> ''HOLD''
                                   | Some c \<Rightarrow> if truthy c then c else ''HOLD''),
                    status := Completed, currentAgent := ''''\<rparr>) st)
      | QuotaError \<Rightarrow>
          (Return, assignSavePublish sessionId r
             (\<lambda>s. s\<lparr>status := Error, errorMsg := ''API quota exhausted'', currentAgent := ''''\<rparr>) st)
      | TimeoutError \<Rightarrow>
          (Return, assignSavePublish sessionId r
             (\<lambda>s. s\<lparr>status := Error, errorMsg := ''Network response timeout'', currentAgent := ''''\<rparr>) st)
      | ErrorEvent \<Rightarrow>
          (Return, assignSavePublish sessionId r
             (\<lambda>s. s\<lparr>status := Error,
                    errorMsg := take 200 (case content ch of None \<Rightarrow> ''Unknown error''
                                           | Some c \<Rightarrow> if truthy c then c else ''Unknown error''),
                    currentAgent := ''''\<rparr>) st)
      | OtherType x \<Rightarrow> (Continue t, st))"

text \<open>After the loop: a stream that ended without a assignSavePublish event.\<close>

definition streamEnded :: "task \<Rightarrow> manager \<Rightarrow> manager" where
  "streamEnded t st =
     (if status (heap st (t_session t)) = Running
      then assignSavePublish (t_sessionId t) (t_session t)
             (\<lambda>s. s\<lparr>status := Completed, currentAgent := ''''\<rparr>) st
      else st)"

text \<open>The \<^verbatim>\<open>catch\<close> clause.\<close>

definition caught :: "string option \<Rightarrow> task \<Rightarrow> manager \<Rightarrow> manager" where
  "caught msg t st =
     assignSavePublish (t_sessionId t) (t_session t)
       (\<lambda>s. s\<lparr>status := Error,
              errorMsg := (case msg of None \<Rightarrow> ''Unknown error''
                           | Some m \<Rightarrow> if truthy (take 200 m) then take 200 m else ''Unknown error''),
              currentAgent := ''''\<rparr>) st"

text \<open>The \<^verbatim>\<open>finally\<close> clause; the task is over, so it leaves \<open>tasks\<close>.\<close>

definition finallyClause :: "(string \<Rightarrow> int option) \<Rightarrow> nat \<Rightarrow> task \<Rightarrow> manager \<Rightarrow> manager" where
  "finallyClause gt signal t st =
     (let st1 = st\<lparr>runningTasks := AList.delete (t_sessionId t) (runningTasks st),
                   tasks := AList.delete signal (tasks st)\<rparr>;
          u = userId (heap st1 (t_session t))
      in if truthy u then startNextQueuedSession gt u st1 else st1)"

text \<open>
  One resumption of the task that holds controller \<open>signal\<close>, with what the feed gave it.
  A controller without a live task does nothing. The event loop runs one resumption at a
  time, and a \<^verbatim>\<open>return\<close> from the loop runs the \<^verbatim>\<open>finally\<close> clause before any request
  is served, so a resumption is one step. \<^verbatim>\<open>substring(0, 200)\<close> is \<open>take 200\<close>, a string
  being the list of its code units.
\<close>

definition runAnalysis :: "(string \<Rightarrow> int option) \<Rightarrow> nat \<Rightarrow> feed \<Rightarrow> manager \<Rightarrow> manager" where
  "runAnalysis gt signal f st =
     (case map_of (tasks st) signal of
        None \<Rightarrow> st
      | Some t \<Rightarrow>
          (case f of
             Next ch \<Rightarrow>
               (case foldChunk signal ch t st of
                  (Continue t', st') \<Rightarrow> st'\<lparr>tasks := AList.update signal t' (tasks st')\<rparr>
                | (Return, st') \<Rightarrow> finallyClause gt signal t st')
           | Done \<Rightarrow> finallyClause gt signal t (streamEnded t st)
           | Throws msg \<Rightarrow> finallyClause gt signal t (caught msg t st)))"

text \<open>\<^verbatim>\<open>retrySession\<close>; the optional \<^verbatim>\<open>analysts\<close> argument is \<open>None\<close> when omitted.\<close>

definition resetState :: "session \<Rightarrow> session" where
  "resetState s = s\<lparr>status := Pending, errorMsg := '''', progress := [], reports := [],
                    decision := '''', currentAgent := ''''\<rparr>"

definition retrySession :: "string \<Rightarrow> string list option \<Rightarrow> manager \<Rightarrow> manager" where
  "retrySession sessionId analysts st =
     (case map_of (sessions st) sessionId of
        None \<Rightarrow> st
      | Some r \<Rightarrow>
          startSession sessionId (case analysts of None \<Rightarrow> defaultAnalysts | Some a \<Rightarrow> a)
            (saveSessions (assign r resetState st)))"

section \<open>Listing (getAllSessions, getAllSessionSummaries)\<close>

text \<open>
  The comparator of \<^verbatim>\<open>getAllSessions\<close> is \<^verbatim>\<open>time(b) - time(a)\<close>; a \<^verbatim>\<open>NaN\<close> result counts
  as 0. \<^verbatim>\<open>Array.prototype.sort\<close> is stable: \<open>sortBy\<close> is the stable insertion sort, which
  is the order every stable sort gives when all dates parse.
\<close>

definition compareCreated :: "(string \<Rightarrow> int option) \<Rightarrow> session \<Rightarrow> session \<Rightarrow> int" where
  "compareCreated gt a b =
     (case (gt (createdAt b), gt (createdAt a)) of
        (Some tb, Some ta) \<Rightarrow> tb - ta
      | _ \<Rightarrow> 0)"

fun insertBy :: "('a \<Rightarrow> 'a \<Rightarrow> int) \<Rightarrow> 'a \<Rightarrow> 'a list \<Rightarrow> 'a list" where
  "insertBy cmp x [] = [x]"
| "insertBy cmp x (y # ys) = (if cmp x y \<le> 0 then x # y # ys else y # insertBy cmp x ys)"

definition sortBy :: "('a \<Rightarrow> 'a \<Rightarrow> int) \<Rightarrow> 'a list \<Rightarrow> 'a list" where
  "sortBy cmp xs = foldr (insertBy cmp) xs []"

definition getAllSessions ::
  "(string \<Rightarrow> int option) \<Rightarrow> string option \<Rightarrow> bool \<Rightarrow> manager \<Rightarrow> session list" where
  "getAllSessions gt uid isAdmin st =
     sortBy (compareCreated gt)
       (if isAdmin then snapshot st
        else if truthy_opt uid then filter (\<lambda>s. Some (userId s) = uid) (snapshot st)
        else filter (\<lambda>s. \<not> truthy (userId s)) (snapshot st))"

definition summaryOf :: "session \<Rightarrow> nat option \<Rightarrow> SessionSummary" where
  "summaryOf s pos =
     \<lparr>sum_id = sid s, sum_ticker = ticker s, sum_stockName = stockName s,
      sum_market = market s, sum_model = model s, sum_startDate = startDate s,
      sum_endDate = endDate s, sum_userId = userId s, sum_status = status s,
      sum_decision = decision s, sum_progress = progress s, sum_createdAt = createdAt s,
      sum_errorMsg = errorMsg s, sum_currentAgent = currentAgent s, queuePosition = pos\<rparr>"

text \<open>The \<^verbatim>\<open>map\<close> callback with its counter map \<^verbatim>\<open>userQueuePositions\<close> threaded through.\<close>

fun summarize :: "(string \<times> nat) list \<Rightarrow> session list \<Rightarrow> SessionSummary list" where
  "summarize positions [] = []"
| "summarize positions (s # ss) =
     (if status s = Queued
      then (let key = (if truthy (userId s) then userId s else ''__anonymous__'');
                pos = (case map_of positions key of None \<Rightarrow> 0 | Some n \<Rightarrow> n) + 1
            in summaryOf s (Some pos) # summarize (AList.update key pos positions) ss)
      else summaryOf s None # summarize positions ss)"

definition getAllSessionSummaries ::
  "(string \<Rightarrow> int option) \<Rightarrow> string option \<Rightarrow> bool \<Rightarrow> manager \<Rightarrow> SessionSummary list" where
  "getAllSessionSummaries gt uid isAdmin st = summarize [] (getAllSessions gt uid isAdmin st)"

section \<open>Routes (routes/sessions.ts)\<close>

text \<open>
  The handlers of \<^verbatim>\<open>GET /api/sessions/:id\<close> and \<^verbatim>\<open>POST /api/sessions/:id/retry\<close>. The
  requester is the middleware's \<^verbatim>\<open>UserContext\<close>: a user name (empty when the header is
  missing) and the admin flag.
\<close>

datatype response = NotFound404 | BadRequest400 | Json "session option"

definition getById :: "string \<Rightarrow> string \<Rightarrow> bool \<Rightarrow> manager \<Rightarrow> response" where
  "getById sessionId username isAdmin st =
     (case getSession sessionId (Some username) isAdmin st of
        None \<Rightarrow> NotFound404
      | Some r \<Rightarrow> Json (Some (heap st r)))"

definition postRetry :: "string \<Rightarrow> string \<Rightarrow> bool \<Rightarrow> manager \<Rightarrow> response \<times> manager" where
  "postRetry sessionId username isAdmin st =
     (case getSession sessionId (Some username) isAdmin st of
        None \<Rightarrow> (NotFound404, st)
      | Some r \<Rightarrow>
          if status (heap st r) \<noteq> Error then (BadRequest400, st)
          else (let st' = retrySession sessionId None st
                in (Json (map_option (heap st') (getSession sessionId (Some username) isAdmin st')), st')))"

text \<open>
  The manager of a fresh process: an empty store, no file, no task. No reference is
  allocated yet; \<open>blank\<close> only fills the unallocated cells of the heap.
\<close>

definition blank :: session where
  "blank = \<lparr>sid = [], ticker = [], stockName = [], market = [], model = [],
             startDate = [], endDate = [], userId = [], status = Pending, decision = [],
             progress = [], reports = [], createdAt = [], errorMsg = [], currentAgent = [],
             x_analysts = None\<rparr>"

definition initial :: manager where
  "initial = \<lparr>heap = (\<lambda>r. blank), nextRef = 0, sessions = [], runningTasks = [],
              aborted = {}, nextController = 0, tasks = [], sessionsFile = None,
              published = []\<rparr>"

text \<open>
  The operations that drive the manager, one per atomic step of the event loop: the
  calls of the routes and the resumption of a task by its feed.
\<close>

datatype operation =
  CreateSession string string params
  | StartSession string "string list"
  | RetrySession string "string list option"
  | DeleteSession string
  | Resume nat feed

fun perform :: "(string \<Rightarrow> int option) \<Rightarrow> manager \<Rightarrow> operation \<Rightarrow> manager" where
  "perform gt st (CreateSession newId now p) = snd (createSession newId now p st)"
| "perform gt st (StartSession sessionId analysts) = startSession sessionId analysts st"
| "perform gt st (RetrySession sessionId analysts) = retrySession sessionId analysts st"
| "perform gt st (DeleteSession sessionId) = snd (deleteSession sessionId st)"
| "perform gt st (Resume signal f) = runAnalysis gt signal f st"

definition runningOf :: "string \<Rightarrow> manager \<Rightarrow> session list" where
  "runningOf u st = filter (\<lambda>s. userId s = u \<and> status s = Running) (snapshot st)"

section \<open>Notions used by the properties\<close>

text \<open>The file holds exactly the serialization of the store.\<close>

definition synced :: "manager \<Rightarrow> bool" where
  "synced st = (sessionsFile st = Some (snapshot st))"

text \<open>
  What a step leaves behind when it saves after each mutation: the file equals the store,
  or neither the store's records nor the file changed.
\<close>

definition savedOrUntouched :: "manager \<Rightarrow> manager \<Rightarrow> bool" where
  "savedOrUntouched st st' =
     (synced st' \<or> (snapshot st' = snapshot st \<and> sessionsFile st' = sessionsFile st))"

text \<open>
  The store is keyed by the \<^verbatim>\<open>id\<close> of the object it holds, once per key, and holds
  only references that were allocated. Both are kept by every operation
  (\<open>wf_alloc_perform\<close> below).
\<close>

definition wf_store :: "manager \<Rightarrow> bool" where
  "wf_store st = (distinct (map fst (sessions st)) \<and> (\<forall>(k, r) \<in> set (sessions st). sid (heap st r) = k))"

definition allocated :: "manager \<Rightarrow> bool" where
  "allocated st = (\<forall>r\<in>set (map snd (sessions st)). r < nextRef st)"

text \<open>Every creation date in the store parses.\<close>

definition datesParse :: "(string \<Rightarrow> int option) \<Rightarrow> manager \<Rightarrow> bool" where
  "datesParse gt st = (\<forall>r\<in>set (map snd (sessions st)). gt (createdAt (heap st r)) \<noteq> None)"

text \<open>
  A step that changes neither the store's keys nor any object's \<^verbatim>\<open>id\<close>, \<^verbatim>\<open>userId\<close> or
  \<^verbatim>\<open>createdAt\<close>.
\<close>

definition frame :: "manager \<Rightarrow> manager \<Rightarrow> bool" where
  "frame st st' = (sessions st' = sessions st \<and> nextRef st' = nextRef st
                   \<and> sid \<circ> heap st' = sid \<circ> heap st
                   \<and> userId \<circ> heap st' = userId \<circ> heap st
                   \<and> createdAt \<circ> heap st' = createdAt \<circ> heap st)"

text \<open>The clock readings that an operation list hands to \<^verbatim>\<open>createSession\<close> all parse.\<close>

fun readingsParse :: "(string \<Rightarrow> int option) \<Rightarrow> operation list \<Rightarrow> bool" where
  "readingsParse gt [] = True"
| "readingsParse gt (CreateSession newId now p # ops) = (gt now \<noteq> None \<and> readingsParse gt ops)"
| "readingsParse gt (op # ops) = readingsParse gt ops"

text \<open>
  The resumptions on which \<^verbatim>\<open>runAnalysis\<close> leaves its loop and reaches \<^verbatim>\<open>finally\<close>: the
  end of the stream, an exception, a chunk after \<^verbatim>\<open>abort()\<close>, or one of the four
  terminal events.
\<close>

definition endsTask :: "nat \<Rightarrow> feed \<Rightarrow> manager \<Rightarrow> bool" where
  "endsTask signal f st =
     (case f of
        Done \<Rightarrow> True
      | Throws msg \<Rightarrow> True
      | Next ch \<Rightarrow> signal \<in> aborted st \<or> ctype ch \<in> {Complete, QuotaError, TimeoutError, ErrorEvent})"

text \<open>The resumption of a task with a \<^verbatim>\<open>token\<close> chunk.\<close>

definition isTokenFold :: "operation \<Rightarrow> bool" where
  "isTokenFold op = (case op of Resume signal (Next ch) \<Rightarrow> ctype ch = Token | _ \<Rightarrow> False)"

section \<open>Sample inputs\<close>

text \<open>
  A clock for the three timestamps of the samples (milliseconds since the epoch), one
  request per user and ticker, and the two calls of \<^verbatim>\<open>POST /api/sessions\<close>
  (\<^verbatim>\<open>createSession\<close>, then \<^verbatim>\<open>startSession\<close>).
\<close>

definition clock :: "string \<Rightarrow> int option" where
  "clock = map_of [(''2024-05-01 10:00:00'', 1714557600000),
                   (''2024-05-01 10:00:05'', 1714557605000),
                   (''2024-05-01 10:00:09'', 1714557609000)]"

definition request :: "string \<Rightarrow> string \<Rightarrow> params" where
  "request u t = \<lparr>p_ticker = t, p_stockName = '''', p_market = ''A-share'',
                  p_model = ''deepseek-v3'', p_startDate = ''2024-04-01'',
                  p_endDate = ''2024-05-01'', p_userId = u\<rparr>"

definition submit :: "string \<Rightarrow> string \<Rightarrow> string \<Rightarrow> string \<Rightarrow> operation list" where
  "submit newId now u t = [CreateSession newId now (request u t), StartSession newId [''market'']]"

definition event :: "chunk_type \<Rightarrow> string option \<Rightarrow> string option \<Rightarrow> feed" where
  "event ty a c = Next \<lparr>ctype = ty, agent = a, content = c\<rparr>"

text \<open>Alice's session \<open>a\<close> is running under controller 0.\<close>

definition oneRunning :: manager where
  "oneRunning = foldl (perform clock) initial (submit ''a'' ''2024-05-01 10:00:00'' ''alice'' ''600519'')"

definition firstTask :: task where
  "firstTask = \<lparr>t_sessionId = ''a'', t_session = 0, t_analysts = [''market''],
                t_currentAgent = '''', t_accumulatedContent = '''', t_tokenCount = 0\<rparr>"

text \<open>Then she submits \<open>b\<close> and \<open>c\<close>, which queue behind \<open>a\<close>.\<close>

definition twoQueued :: manager where
  "twoQueued = foldl (perform clock) oneRunning
      (submit ''b'' ''2024-05-01 10:00:05'' ''alice'' ''000858'' @
       submit ''c'' ''2024-05-01 10:00:09'' ''alice'' ''600036'')"

text \<open>Session \<open>a\<close> after the engine reported an error.\<close>

definition failedState :: manager where
  "failedState = perform clock oneRunning (Resume 0 (event ErrorEvent None (Some ''engine crashed'')))"

text \<open>
  Alice submits \<open>a\<close> (running) and \<open>b\<close> (queued), deletes \<open>a\<close>, submits \<open>c\<close>, and only then
  does the cancelled task of \<open>a\<close> receive its next chunk.
\<close>

definition deleteThenSubmit :: "operation list" where
  "deleteThenSubmit =
     submit ''a'' ''2024-05-01 10:00:00'' ''alice'' ''600519'' @
     submit ''b'' ''2024-05-01 10:00:05'' ''alice'' ''000858'' @
     [DeleteSession ''a''] @
     submit ''c'' ''2024-05-01 10:00:09'' ''alice'' ''600036'' @
     [Resume 0 (event Heartbeat None None)]"

text \<open>Two submissions without a user name.\<close>

definition twoAnonymous :: manager where
  "twoAnonymous = foldl (perform clock) initial
      (submit ''x'' ''2024-05-01 10:00:00'' '''' ''600519'' @
       submit ''y'' ''2024-05-01 10:00:05'' '''' ''000858'')"

text \<open>The feed of one stage that streams two tokens and then ends.\<close>

definition stageFeed :: "nat \<Rightarrow> string \<Rightarrow> string \<Rightarrow> string \<Rightarrow> string \<Rightarrow> operation list" where
  "stageFeed signal a c1 c2 c =
     [Resume signal (event NodeStart (Some a) None),
      Resume signal (event Token (Some a) (Some c1)),
      Resume signal (event Token (Some a) (Some c2)),
      Resume signal (event NodeEnd (Some a) (Some c))]"

section \<open>Field lemmas\<close>

lemma saveSessions_fields [simp]:
  "heap (saveSessions st) = heap st" "sessions (saveSessions st) = sessions st"
  "tasks (saveSessions st) = tasks st" "runningTasks (saveSessions st) = runningTasks st"
  "aborted (saveSessions st) = aborted st" "published (saveSessions st) = published st"
  "nextRef (saveSessions st) = nextRef st" "nextController (saveSessions st) = nextController st"
  "sessionsFile (saveSessions st) = Some (snapshot st)"
  by (simp_all add: saveSessions_def)

lemma publish_fields [simp]:
  "heap (publish k r st) = heap st" "sessions (publish k r st) = sessions st"
  "tasks (publish k r st) = tasks st" "runningTasks (publish k r st) = runningTasks st"
  "aborted (publish k r st) = aborted st" "sessionsFile (publish k r st) = sessionsFile st"
  "nextRef (publish k r st) = nextRef st" "nextController (publish k r st) = nextController st"
  "published (publish k r st) = published st @ [(k, heap st r)]"
  by (simp_all add: publish_def)

lemma assign_fields [simp]:
  "heap (assign r f st) = (heap st)(r := f (heap st r))" "sessions (assign r f st) = sessions st"
  "tasks (assign r f st) = tasks st" "runningTasks (assign r f st) = runningTasks st"
  "aborted (assign r f st) = aborted st" "sessionsFile (assign r f st) = sessionsFile st"
  "nextRef (assign r f st) = nextRef st" "nextController (assign r f st) = nextController st"
  "published (assign r f st) = published st"
  by (simp_all add: assign_def)

lemma asp_fields [simp]:
  "heap (assignSavePublish k r f st) = (heap st)(r := f (heap st r))"
  "sessions (assignSavePublish k r f st) = sessions st"
  "nextController (assignSavePublish k r f st) = nextController st"
  "tasks (assignSavePublish k r f st) = tasks st"
  "aborted (assignSavePublish k r f st) = aborted st"
  "nextRef (assignSavePublish k r f st) = nextRef st"
  "runningTasks (assignSavePublish k r f st) = runningTasks st"
  by (simp_all add: assignSavePublish_def)

lemma snapshot_simps [simp]:
  "snapshot (saveSessions st) = snapshot st" "snapshot (publish k r st) = snapshot st"
  "snapshot (st\<lparr>tasks := ts\<rparr>) = snapshot st" "snapshot (st\<lparr>runningTasks := rt\<rparr>) = snapshot st"
  "snapshot (st\<lparr>aborted := ab\<rparr>) = snapshot st" "snapshot (st\<lparr>nextController := n\<rparr>) = snapshot st"
  by (simp_all add: snapshot_def)

section \<open>Events\<close>

lemma foldChunk_empty:
  assumes "ctype ch = Token \<or> ctype ch = NodeEnd"
    and "\<not> (truthy_opt (agent ch) \<and> truthy_opt (content ch))"
    and "signal \<notin> aborted st"
  shows "\<exists>t'. foldChunk signal ch t st = (Continue t', st)"
  using assms by (auto simp: foldChunk_def truthy_opt_def Let_def split: option.splits)

lemma next_MA: "getNextAgent ''Market Analyst'' = ''Social Analyst''"
  by (simp add: getNextAgent_def AGENT_ORDER_def)

lemma next_last: "getNextAgent (last AGENT_ORDER) = ''''"
  by (simp add: getNextAgent_def AGENT_ORDER_def)

lemma getNextAgent_order:
  "i < length AGENT_ORDER \<Longrightarrow>
     getNextAgent (AGENT_ORDER ! i) = (if Suc i < length AGENT_ORDER then AGENT_ORDER ! Suc i else '''')"
proof -
  have "list_all (\<lambda>i. getNextAgent (AGENT_ORDER ! i)
                        = (if Suc i < length AGENT_ORDER then AGENT_ORDER ! Suc i else ''''))
          [0..<length AGENT_ORDER]"
    by code_simp
  then show "i < length AGENT_ORDER \<Longrightarrow>
     getNextAgent (AGENT_ORDER ! i) = (if Suc i < length AGENT_ORDER then AGENT_ORDER ! Suc i else '''')"
    by (simp add: list_all_iff)
qed

section \<open>Persistence\<close>

lemma synced_startSession: "synced st \<Longrightarrow> synced (startSession k a st)"
  by (simp add: synced_def snapshot_def startSession_def startSessionNow_def Let_def split: option.splits)

lemma synced_save: "synced (saveSessions st)"
  by (simp add: synced_def snapshot_def)

lemma synced_create: "synced (snd (createSession k now p st))"
  by (simp add: createSession_def Let_def synced_save)

lemma synced_asp: "synced (assignSavePublish k r f st)"
  by (simp add: assignSavePublish_def synced_def snapshot_def)

lemma sou_refl: "savedOrUntouched st st"
  by (simp add: savedOrUntouched_def)

lemma sou_synced: "synced st' \<Longrightarrow> savedOrUntouched st st'"
  by (simp add: savedOrUntouched_def)

lemma sou_trans: "savedOrUntouched st st1 \<Longrightarrow> savedOrUntouched st1 st2 \<Longrightarrow> savedOrUntouched st st2"
  by (auto simp: savedOrUntouched_def synced_def)

lemma startSessionNow_found: "map_of (sessions st) k = Some r \<Longrightarrow> synced (startSessionNow k a st)"
  by (simp add: synced_def snapshot_def startSessionNow_def Let_def)

lemma sou_startSessionNow: "savedOrUntouched st (startSessionNow k a st)"
proof (cases "map_of (sessions st) k")
  case None
  then show ?thesis by (simp add: startSessionNow_def sou_refl)
next
  case (Some r)
  then show ?thesis by (simp add: startSessionNow_found sou_synced)
qed

lemma sou_startSession: "savedOrUntouched st (startSession k a st)"
proof (cases "map_of (sessions st) k")
  case None
  then show ?thesis by (simp add: startSession_def sou_refl)
next
  case (Some r)
  let ?st1 = "assign r (\<lambda>s. s\<lparr>x_analysts := Some a\<rparr>) st"
  have "map_of (sessions ?st1) k = Some r" using Some by simp
  then have "synced (startSessionNow k a ?st1)" by (rule startSessionNow_found)
  then have "synced (startSession k a st)"
    using Some by (simp add: startSession_def Let_def synced_def snapshot_def split: option.splits)
  then show ?thesis by (rule sou_synced)
qed

lemma sou_startNext: "savedOrUntouched st (startNextQueuedSession gt u st)"
  by (simp add: startNextQueuedSession_def sou_refl sou_startSessionNow split: option.splits)

lemma sou_retry: "savedOrUntouched st (retrySession k a st)"
proof (cases "map_of (sessions st) k")
  case None
  then show ?thesis by (simp add: retrySession_def sou_refl)
next
  case (Some r)
  have "synced (saveSessions (assign r resetState st))" by (rule synced_save)
  then have "synced (retrySession k a st)"
    using Some by (simp add: retrySession_def synced_startSession)
  then show ?thesis by (rule sou_synced)
qed

lemma sou_delete: "savedOrUntouched st (snd (deleteSession k st))"
proof (cases "map_of (sessions st) k")
  case None
  then show ?thesis by (simp add: deleteSession_def sou_refl)
next
  case (Some r)
  then have "synced (snd (deleteSession k st))"
    by (simp add: deleteSession_def Let_def synced_save split: option.splits)
  then show ?thesis by (rule sou_synced)
qed

lemma sou_finally: "savedOrUntouched st (finallyClause gt c t st)"
proof -
  let ?st1 = "st\<lparr>runningTasks := AList.delete (t_sessionId t) (runningTasks st),
                  tasks := AList.delete c (tasks st)\<rparr>"
  have "savedOrUntouched st ?st1" by (simp add: savedOrUntouched_def snapshot_def)
  moreover have "savedOrUntouched ?st1 (finallyClause gt c t st)"
    using sou_startNext[of ?st1 gt] by (simp add: finallyClause_def Let_def sou_refl)
  ultimately show ?thesis by (rule sou_trans)
qed

lemma sou_foldChunk: "ctype ch \<noteq> Token \<Longrightarrow> savedOrUntouched st (snd (foldChunk c ch t st))"
  by (cases "ctype ch")
     (simp_all add: foldChunk_def Let_def sou_refl sou_synced synced_asp split: option.splits)

lemma sou_runAnalysis:
  assumes "\<forall>ch. f = Next ch \<longrightarrow> ctype ch \<noteq> Token"
  shows "savedOrUntouched st (runAnalysis gt c f st)"
proof (cases "map_of (tasks st) c")
  case None
  then show ?thesis by (simp add: runAnalysis_def sou_refl)
next
  case (Some t)
  show ?thesis
  proof (cases f)
    case (Next ch)
    then have nt: "ctype ch \<noteq> Token" using assms by simp
    obtain out st' where fc: "foldChunk c ch t st = (out, st')" by (cases "foldChunk c ch t st")
    have f1: "savedOrUntouched st st'" using sou_foldChunk[OF nt, of st c t] fc by simp
    show ?thesis
    proof (cases out)
      case (Continue t')
      have "savedOrUntouched st' (st'\<lparr>tasks := AList.update c t' (tasks st')\<rparr>)"
        by (simp add: savedOrUntouched_def snapshot_def)
      with f1 show ?thesis using Some Next fc Continue
        by (simp add: runAnalysis_def) (rule sou_trans)
    next
      case Return
      with f1 sou_finally[of st' gt c t] show ?thesis using Some Next fc
        by (simp add: runAnalysis_def) (rule sou_trans)
    qed
  next
    case Done
    have "savedOrUntouched st (streamEnded t st)"
      by (simp add: streamEnded_def sou_refl sou_synced synced_asp)
    with sou_finally[of "streamEnded t st" gt c t] show ?thesis using Some Done
      by (simp add: runAnalysis_def) (rule sou_trans)
  next
    case (Throws m)
    have "savedOrUntouched st (caught m t st)" by (simp add: caught_def sou_synced synced_asp)
    with sou_finally[of "caught m t st" gt c t] show ?thesis using Some Throws
      by (simp add: runAnalysis_def) (rule sou_trans)
  qed
qed

section \<open>The queue scan and the promotion\<close>

lemma scan_fold:
  assumes valid: "\<forall>r\<in>set rs. status (h r) = Queued \<and> userId (h r) = u \<longrightarrow> gt (createdAt (h r)) \<noteq> None"
    and good: "(n = None \<and> e = Infinity) \<or>
               (\<exists>q t. n = Some q \<and> e = Num t \<and> status (h q) = Queued \<and> userId (h q) = u \<and> gt (createdAt (h q)) = Some t)"
  shows "\<exists>n' e'. foldl (scanQueued gt u h) (n, e) rs = (n', e')
     \<and> ((n' = None \<and> e' = Infinity \<and> n = None) \<or>
        (\<exists>q t. n' = Some q \<and> e' = Num t \<and> status (h q) = Queued \<and> userId (h q) = u
               \<and> gt (createdAt (h q)) = Some t \<and> (n = Some q \<or> q \<in> set rs)))
     \<and> (\<forall>r\<in>set rs. status (h r) = Queued \<and> userId (h r) = u \<longrightarrow>
           (\<exists>t t'. e' = Num t \<and> gt (createdAt (h r)) = Some t' \<and> t \<le> t'))
     \<and> (\<forall>t0. e = Num t0 \<longrightarrow> (\<exists>t. e' = Num t \<and> t \<le> t0))"
  using assms
proof (induction rs arbitrary: n e)
  case Nil
  then show ?case by auto
next
  case (Cons x xs)
  obtain n1 e1 where step: "scanQueued gt u h (n, e) x = (n1, e1)"
    by (cases "scanQueued gt u h (n, e) x")
  have valid': "\<forall>r\<in>set xs. status (h r) = Queued \<and> userId (h r) = u \<longrightarrow> gt (createdAt (h r)) \<noteq> None"
    using Cons.prems(1) by simp
  have good1: "(n1 = None \<and> e1 = Infinity) \<or>
               (\<exists>q t. n1 = Some q \<and> e1 = Num t \<and> status (h q) = Queued \<and> userId (h q) = u \<and> gt (createdAt (h q)) = Some t)"
    using step Cons.prems(2)
    by (auto simp: scanQueued_def getTime_def Let_def split: if_splits option.splits)
  have src1: "n1 = n \<or> n1 = Some x"
    using step by (auto simp: scanQueued_def Let_def split: if_splits)
  have none1: "n1 = None \<longrightarrow> n = None \<and> \<not> (status (h x) = Queued \<and> userId (h x) = u)"
    using step Cons.prems
    by (auto simp: scanQueued_def getTime_def Let_def split: if_splits option.splits)
  have le1: "\<forall>t0. e = Num t0 \<longrightarrow> (\<exists>t. e1 = Num t \<and> t \<le> t0)"
    using step by (auto simp: scanQueued_def getTime_def Let_def split: if_splits option.splits)
  have x1: "status (h x) = Queued \<and> userId (h x) = u \<longrightarrow>
          (\<exists>t t'. e1 = Num t \<and> gt (createdAt (h x)) = Some t' \<and> t \<le> t')"
    using step Cons.prems
    by (auto simp: scanQueued_def getTime_def Let_def split: if_splits option.splits)
  from Cons.IH[OF valid' good1] obtain n' e' where
    res: "foldl (scanQueued gt u h) (n1, e1) xs = (n', e')"
    and shape: "(n' = None \<and> e' = Infinity \<and> n1 = None) \<or>
        (\<exists>q t. n' = Some q \<and> e' = Num t \<and> status (h q) = Queued \<and> userId (h q) = u
               \<and> gt (createdAt (h q)) = Some t \<and> (n1 = Some q \<or> q \<in> set xs))"
    and low: "\<forall>r\<in>set xs. status (h r) = Queued \<and> userId (h r) = u \<longrightarrow>
           (\<exists>t t'. e' = Num t \<and> gt (createdAt (h r)) = Some t' \<and> t \<le> t')"
    and mono: "\<forall>t0. e1 = Num t0 \<longrightarrow> (\<exists>t. e' = Num t \<and> t \<le> t0)"
    by (elim exE conjE) (rule that)
  have "foldl (scanQueued gt u h) (n, e) (x # xs) = (n', e')"
    using step res by simp
  moreover have "(n' = None \<and> e' = Infinity \<and> n = None) \<or>
        (\<exists>q t. n' = Some q \<and> e' = Num t \<and> status (h q) = Queued \<and> userId (h q) = u
               \<and> gt (createdAt (h q)) = Some t \<and> (n = Some q \<or> q \<in> set (x # xs)))"
    using shape src1 none1 by auto
  moreover have "\<forall>r\<in>set (x # xs). status (h r) = Queued \<and> userId (h r) = u \<longrightarrow>
           (\<exists>t t'. e' = Num t \<and> gt (createdAt (h r)) = Some t' \<and> t \<le> t')"
    using low x1 mono by fastforce
  moreover have "\<forall>t0. e = Num t0 \<longrightarrow> (\<exists>t. e' = Num t \<and> t \<le> t0)"
    using le1 mono by fastforce
  ultimately show ?case by (intro exI[of _ n'] exI[of _ e'] conjI)
qed

lemma scan_picks_oldest:
  assumes valid: "\<forall>r\<in>set rs. status (h r) = Queued \<and> userId (h r) = u \<longrightarrow> gt (createdAt (h r)) \<noteq> None"
    and some: "\<exists>r\<in>set rs. status (h r) = Queued \<and> userId (h r) = u"
  shows "\<exists>q t. fst (foldl (scanQueued gt u h) (None, Infinity) rs) = Some q \<and> q \<in> set rs
           \<and> status (h q) = Queued \<and> userId (h q) = u \<and> gt (createdAt (h q)) = Some t
           \<and> (\<forall>r\<in>set rs. status (h r) = Queued \<and> userId (h r) = u \<longrightarrow>
                 (\<exists>t'. gt (createdAt (h r)) = Some t' \<and> t \<le> t'))"
proof -
  from scan_fold[OF valid, of None Infinity] obtain n' e' where
    res: "foldl (scanQueued gt u h) (None, Infinity) rs = (n', e')"
    and shape: "(n' = None \<and> e' = Infinity) \<or>
        (\<exists>q t. n' = Some q \<and> e' = Num t \<and> status (h q) = Queued \<and> userId (h q) = u
               \<and> gt (createdAt (h q)) = Some t \<and> q \<in> set rs)"
    and low: "\<forall>r\<in>set rs. status (h r) = Queued \<and> userId (h r) = u \<longrightarrow>
           (\<exists>t t'. e' = Num t \<and> gt (createdAt (h r)) = Some t' \<and> t \<le> t')"
    by auto
  from some low obtain t0 where "e' = Num t0" by blast
  with shape obtain q where q: "n' = Some q" "status (h q) = Queued" "userId (h q) = u"
       "gt (createdAt (h q)) = Some t0" "q \<in> set rs" by auto
  have "\<forall>r\<in>set rs. status (h r) = Queued \<and> userId (h r) = u \<longrightarrow>
                 (\<exists>t'. gt (createdAt (h r)) = Some t' \<and> t0 \<le> t')"
    using low \<open>e' = Num t0\<close> by fastforce
  with q res show ?thesis by auto
qed

lemma wf_lookup:
  assumes "wf_store st" and "q \<in> set (map snd (sessions st))"
  shows "map_of (sessions st) (sid (heap st q)) = Some q"
proof -
  from assms(2) obtain k where kq: "(k, q) \<in> set (sessions st)" by auto
  with assms(1) have "sid (heap st q) = k" by (auto simp: wf_store_def)
  moreover have "map_of (sessions st) k = Some q"
    using assms(1) kq by (simp add: wf_store_def)
  ultimately show ?thesis by simp
qed

lemma startSessionNow_heap:
  assumes "map_of (sessions st) k = Some q"
  shows "heap (startSessionNow k a st) = (heap st)(q := (heap st q)\<lparr>status := Running, currentAgent := ''Market Analyst''\<rparr>)"
    and "sessions (startSessionNow k a st) = sessions st"
    and "map_of (tasks (startSessionNow k a st)) (nextController st) =
           Some \<lparr>t_sessionId = k, t_session = q, t_analysts = a,
                 t_currentAgent = '''', t_accumulatedContent = '''', t_tokenCount = 0\<rparr>"
  using assms by (simp_all add: startSessionNow_def Let_def AGENT_ORDER_def truthy_def update_conv')

lemma startNext_promotes:
  assumes wf: "wf_store st"
    and valid: "\<forall>r\<in>set (map snd (sessions st)). status (heap st r) = Queued \<and> userId (heap st r) = u
                  \<longrightarrow> gt (createdAt (heap st r)) \<noteq> None"
    and some: "\<exists>r\<in>set (map snd (sessions st)). status (heap st r) = Queued \<and> userId (heap st r) = u"
  shows "\<exists>q tq. q \<in> set (map snd (sessions st)) \<and> status (heap st q) = Queued \<and> userId (heap st q) = u
           \<and> gt (createdAt (heap st q)) = Some tq
           \<and> (\<forall>r\<in>set (map snd (sessions st)). status (heap st r) = Queued \<and> userId (heap st r) = u \<longrightarrow>
                 (\<exists>t'. gt (createdAt (heap st r)) = Some t' \<and> tq \<le> t'))
           \<and> heap (startNextQueuedSession gt u st)
                = (heap st)(q := (heap st q)\<lparr>status := Running, currentAgent := ''Market Analyst''\<rparr>)
           \<and> sessions (startNextQueuedSession gt u st) = sessions st
           \<and> map_of (tasks (startNextQueuedSession gt u st)) (nextController st) =
               Some \<lparr>t_sessionId = sid (heap st q), t_session = q,
                     t_analysts = (case x_analysts (heap st q) of None \<Rightarrow> defaultAnalysts | Some a \<Rightarrow> a),
                     t_currentAgent = '''', t_accumulatedContent = '''', t_tokenCount = 0\<rparr>"
proof -
  from scan_picks_oldest[OF valid some] obtain q tq where
    pick: "fst (foldl (scanQueued gt u (heap st)) (None, Infinity) (map snd (sessions st))) = Some q"
    and q: "q \<in> set (map snd (sessions st))" "status (heap st q) = Queued" "userId (heap st q) = u"
           "gt (createdAt (heap st q)) = Some tq"
    and low: "\<forall>r\<in>set (map snd (sessions st)). status (heap st r) = Queued \<and> userId (heap st r) = u \<longrightarrow>
                 (\<exists>t'. gt (createdAt (heap st r)) = Some t' \<and> tq \<le> t')"
    by (elim exE conjE) (rule that)
  have look: "map_of (sessions st) (sid (heap st q)) = Some q"
    using wf_lookup[OF wf q(1)] .
  have eq: "startNextQueuedSession gt u st =
          startSessionNow (sid (heap st q))
            (case x_analysts (heap st q) of None \<Rightarrow> defaultAnalysts | Some a \<Rightarrow> a) st"
    using pick by (simp add: startNextQueuedSession_def)
  show ?thesis
    using q low startSessionNow_heap[OF look] unfolding eq
    by (intro exI[of _ q] exI[of _ tq] conjI)
qed

lemma promote_after_update:
  assumes wf: "wf_store st"
    and h1: "heap st1 = (heap st)(r := s1)" and k1: "sessions st1 = sessions st"
    and c1: "nextController st1 = nextController st"
    and s1: "sid s1 = sid (heap st r)" "userId s1 = u" "status s1 \<noteq> Queued"
    and r: "t_session t = r" "status (heap st r) = Running" "userId (heap st r) = u" "truthy u"
    and valid: "\<forall>r\<in>set (map snd (sessions st)). status (heap st r) = Queued \<and> userId (heap st r) = u
                  \<longrightarrow> gt (createdAt (heap st r)) \<noteq> None"
    and some: "\<exists>r\<in>set (map snd (sessions st)). status (heap st r) = Queued \<and> userId (heap st r) = u"
  shows "\<exists>q tq. q \<in> set (map snd (sessions st)) \<and> status (heap st q) = Queued \<and> userId (heap st q) = u
           \<and> gt (createdAt (heap st q)) = Some tq
           \<and> (\<forall>r'\<in>set (map snd (sessions st)). status (heap st r') = Queued \<and> userId (heap st r') = u \<longrightarrow>
                 (\<exists>t'. gt (createdAt (heap st r')) = Some t' \<and> tq \<le> t'))
           \<and> heap (finallyClause gt signal t st1)
                = (heap st)(r := s1, q := (heap st q)\<lparr>status := Running, currentAgent := ''Market Analyst''\<rparr>)
           \<and> sessions (finallyClause gt signal t st1) = sessions st
           \<and> map_of (tasks (finallyClause gt signal t st1)) (nextController st) =
               Some \<lparr>t_sessionId = sid (heap st q), t_session = q,
                     t_analysts = (case x_analysts (heap st q) of None \<Rightarrow> defaultAnalysts | Some a \<Rightarrow> a),
                     t_currentAgent = '''', t_accumulatedContent = '''', t_tokenCount = 0\<rparr>"
proof -
  let ?st2 = "st1\<lparr>runningTasks := AList.delete (t_sessionId t) (runningTasks st1),
                   tasks := AList.delete signal (tasks st1)\<rparr>"
  have h2: "heap ?st2 = (heap st)(r := s1)" and k2: "sessions ?st2 = sessions st"
    and c2: "nextController ?st2 = nextController st"
    using h1 k1 c1 by simp_all
  have same: "\<And>x. (status (heap ?st2 x) = Queued \<and> userId (heap ?st2 x) = u)
                = (status (heap st x) = Queued \<and> userId (heap st x) = u)"
    using h2 s1 r by auto
  have other: "\<And>x. status (heap st x) = Queued \<Longrightarrow> heap ?st2 x = heap st x"
    using h2 r by auto
  have wf2: "wf_store ?st2"
    using wf s1(1) unfolding wf_store_def k2 h2 by auto
  have valid2: "\<forall>x\<in>set (map snd (sessions ?st2)). status (heap ?st2 x) = Queued \<and> userId (heap ?st2 x) = u
                  \<longrightarrow> gt (createdAt (heap ?st2 x)) \<noteq> None"
    unfolding same k2 using valid other by (metis (no_types, lifting))
  have some2: "\<exists>x\<in>set (map snd (sessions ?st2)). status (heap ?st2 x) = Queued \<and> userId (heap ?st2 x) = u"
    unfolding same k2 using some .
  from startNext_promotes[OF wf2 valid2 some2] obtain q tq where
    q: "q \<in> set (map snd (sessions ?st2))" "status (heap ?st2 q) = Queued" "userId (heap ?st2 q) = u"
       "gt (createdAt (heap ?st2 q)) = Some tq"
    and low: "\<forall>x\<in>set (map snd (sessions ?st2)). status (heap ?st2 x) = Queued \<and> userId (heap ?st2 x) = u \<longrightarrow>
                 (\<exists>t'. gt (createdAt (heap ?st2 x)) = Some t' \<and> tq \<le> t')"
    and hp: "heap (startNextQueuedSession gt u ?st2)
                = (heap ?st2)(q := (heap ?st2 q)\<lparr>status := Running, currentAgent := ''Market Analyst''\<rparr>)"
    and ks: "sessions (startNextQueuedSession gt u ?st2) = sessions ?st2"
    and tk: "map_of (tasks (startNextQueuedSession gt u ?st2)) (nextController ?st2) =
               Some \<lparr>t_sessionId = sid (heap ?st2 q), t_session = q,
                     t_analysts = (case x_analysts (heap ?st2 q) of None \<Rightarrow> defaultAnalysts | Some a \<Rightarrow> a),
                     t_currentAgent = '''', t_accumulatedContent = '''', t_tokenCount = 0\<rparr>"
    by (elim exE conjE) (rule that)
  have qst: "status (heap st q) = Queued" "userId (heap st q) = u"
    using q(2,3) same by blast+
  have hq: "heap ?st2 q = heap st q" using other qst(1) by blast
  have fin: "finallyClause gt signal t st1 = startNextQueuedSession gt u ?st2"
    using r s1 h1 by (simp add: finallyClause_def Let_def)
  have low': "\<forall>r'\<in>set (map snd (sessions st)). status (heap st r') = Queued \<and> userId (heap st r') = u \<longrightarrow>
                 (\<exists>t'. gt (createdAt (heap st r')) = Some t' \<and> tq \<le> t')"
  proof (intro ballI impI)
    fix r' assume a: "r' \<in> set (map snd (sessions st))" "status (heap st r') = Queued \<and> userId (heap st r') = u"
    then have "status (heap ?st2 r') = Queued \<and> userId (heap ?st2 r') = u" using same by blast
    moreover have "r' \<in> set (map snd (sessions ?st2))" using a(1) unfolding k2 .
    ultimately have "\<exists>t'. gt (createdAt (heap ?st2 r')) = Some t' \<and> tq \<le> t'" using low by blast
    then show "\<exists>t'. gt (createdAt (heap st r')) = Some t' \<and> tq \<le> t'" using other a(2) by simp
  qed
  have "q \<in> set (map snd (sessions st))" using q(1) k2 by simp
  moreover have "gt (createdAt (heap st q)) = Some tq" using q(4) hq by simp
  moreover have "heap (finallyClause gt signal t st1)
                = (heap st)(r := s1, q := (heap st q)\<lparr>status := Running, currentAgent := ''Market Analyst''\<rparr>)"
  proof -
    have "q \<noteq> r" using qst(1) r(2) by auto
    then show ?thesis unfolding fin hp h2 by simp
  qed
  moreover have "sessions (finallyClause gt signal t st1) = sessions st"
    unfolding fin ks k2 ..
  moreover have "map_of (tasks (finallyClause gt signal t st1)) (nextController st) =
               Some \<lparr>t_sessionId = sid (heap st q), t_session = q,
                     t_analysts = (case x_analysts (heap st q) of None \<Rightarrow> defaultAnalysts | Some a \<Rightarrow> a),
                     t_currentAgent = '''', t_accumulatedContent = '''', t_tokenCount = 0\<rparr>"
    using tk unfolding fin hq c2 .
  ultimately show ?thesis using qst low'
    by (intro exI[of _ q] exI[of _ tq] conjI)
qed

lemma runAnalysis_ends:
  assumes task: "map_of (tasks st) signal = Some t"
    and ends: "endsTask signal f st"
    and run: "status (heap st (t_session t)) = Running"
  shows "\<exists>st1 s1. runAnalysis gt signal f st = finallyClause gt signal t st1
           \<and> heap st1 = (heap st)(t_session t := s1) \<and> sessions st1 = sessions st
           \<and> nextController st1 = nextController st
           \<and> sid s1 = sid (heap st (t_session t)) \<and> userId s1 = userId (heap st (t_session t))
           \<and> status s1 \<noteq> Queued
           \<and> ((\<forall>ch. f = Next ch \<longrightarrow> signal \<notin> aborted st) \<longrightarrow> status s1 = Completed \<or> status s1 = Error)"
proof (cases f)
  case (Next ch)
  show ?thesis
  proof (cases "signal \<in> aborted st")
    case True
    have "runAnalysis gt signal f st = finallyClause gt signal t st"
      using task Next True by (simp add: runAnalysis_def foldChunk_def)
    moreover have "heap st = (heap st)(t_session t := heap st (t_session t))" by simp
    ultimately show ?thesis using run Next True
      by (intro exI[of _ st] exI[of _ "heap st (t_session t)"]) auto
  next
    case False
    with ends Next have ty: "ctype ch = Complete \<or> ctype ch = QuotaError \<or> ctype ch = TimeoutError \<or> ctype ch = ErrorEvent"
      by (simp add: endsTask_def)
    then obtain g where fc: "foldChunk signal ch t st = (Return, assignSavePublish (t_sessionId t) (t_session t) g st)"
      and g: "\<And>s. sid (g s) = sid s \<and> userId (g s) = userId s \<and> (status (g s) = Completed \<or> status (g s) = Error)"
      using False by (auto simp: foldChunk_def Let_def)
    have "runAnalysis gt signal f st = finallyClause gt signal t (assignSavePublish (t_sessionId t) (t_session t) g st)"
      using task Next fc by (simp add: runAnalysis_def)
    then show ?thesis using g[of "heap st (t_session t)"]
      by (intro exI[of _ "assignSavePublish (t_sessionId t) (t_session t) g st"]
                exI[of _ "g (heap st (t_session t))"]) auto
  qed
next
  case Done
  let ?g = "\<lambda>s. s\<lparr>status := Completed, currentAgent := ''''\<rparr>"
  have "runAnalysis gt signal f st = finallyClause gt signal t (assignSavePublish (t_sessionId t) (t_session t) ?g st)"
    using task Done run by (simp add: runAnalysis_def streamEnded_def)
  then show ?thesis
    by (intro exI[of _ "assignSavePublish (t_sessionId t) (t_session t) ?g st"]
              exI[of _ "?g (heap st (t_session t))"]) auto
next
  case (Throws msg)
  obtain g where c: "caught msg t st = assignSavePublish (t_sessionId t) (t_session t) g st"
    and g: "\<And>s. sid (g s) = sid s \<and> userId (g s) = userId s \<and> status (g s) = Error"
    by (auto simp: caught_def)
  have "runAnalysis gt signal f st = finallyClause gt signal t (assignSavePublish (t_sessionId t) (t_session t) g st)"
    using task Throws c by (simp add: runAnalysis_def)
  then show ?thesis using g[of "heap st (t_session t)"]
    by (intro exI[of _ "assignSavePublish (t_sessionId t) (t_session t) g st"]
              exI[of _ "g (heap st (t_session t))"]) auto
qed

section \<open>The store stays well formed\<close>

lemma frame_refl: "frame st st"
  by (simp add: frame_def)

lemma frame_trans: "frame st st1 \<Longrightarrow> frame st1 st2 \<Longrightarrow> frame st st2"
  by (simp add: frame_def)

lemma frame_wf: "frame st st' \<Longrightarrow> wf_store st \<Longrightarrow> wf_store st'"
  by (auto simp: frame_def wf_store_def comp_def dest: fun_cong)

lemma frame_allocated: "frame st st' \<Longrightarrow> allocated st \<Longrightarrow> allocated st'"
  by (simp add: frame_def allocated_def)

lemma frame_dates:
  assumes "frame st st'" and "datesParse gt st"
  shows "datesParse gt st'"
proof -
  have "\<And>r. createdAt (heap st' r) = createdAt (heap st r)"
    using assms(1) by (auto simp: frame_def comp_def dest: fun_cong)
  moreover have "sessions st' = sessions st" using assms(1) by (simp add: frame_def)
  ultimately show ?thesis using assms(2) unfolding datesParse_def by metis
qed

lemma frame_asp:
  "(\<And>s. sid (f s) = sid s \<and> userId (f s) = userId s \<and> createdAt (f s) = createdAt s)
     \<Longrightarrow> frame st (assignSavePublish k r f st)"
  by (auto simp: frame_def comp_def)

lemma frame_startSessionNow: "frame st (startSessionNow k a st)"
  by (auto simp: frame_def startSessionNow_def Let_def comp_def split: option.splits)

lemma frame_startSession: "frame st (startSession k a st)"
proof (cases "map_of (sessions st) k")
  case None
  then show ?thesis by (simp add: startSession_def frame_refl)
next
  case (Some r)
  let ?st1 = "assign r (\<lambda>s. s\<lparr>x_analysts := Some a\<rparr>) st"
  have f1: "frame st ?st1" by (auto simp: frame_def comp_def)
  have "frame ?st1 (startSession k a st)"
    using Some frame_startSessionNow[of ?st1 k a]
    by (auto simp: startSession_def Let_def frame_def comp_def split: option.splits)
  with f1 show ?thesis by (rule frame_trans)
qed

lemma frame_startNext: "frame st (startNextQueuedSession gt u st)"
  by (simp add: startNextQueuedSession_def frame_refl frame_startSessionNow split: option.splits)

lemma frame_finally: "frame st (finallyClause gt c t st)"
proof -
  let ?st1 = "st\<lparr>runningTasks := AList.delete (t_sessionId t) (runningTasks st),
                  tasks := AList.delete c (tasks st)\<rparr>"
  have "frame st ?st1" by (simp add: frame_def)
  moreover have "frame ?st1 (finallyClause gt c t st)"
    using frame_startNext[of ?st1 gt] by (simp add: finallyClause_def Let_def frame_refl)
  ultimately show ?thesis by (rule frame_trans)
qed

lemma frame_foldChunk: "frame st (snd (foldChunk c ch t st))"
  by (cases "ctype ch")
     (auto simp: foldChunk_def Let_def frame_refl frame_def comp_def assign_def publish_def
           split: option.splits)

lemma frame_runAnalysis: "frame st (runAnalysis gt c f st)"
proof (cases "map_of (tasks st) c")
  case None
  then show ?thesis by (simp add: runAnalysis_def frame_refl)
next
  case (Some t)
  show ?thesis
  proof (cases f)
    case (Next ch)
    obtain out st' where fc: "foldChunk c ch t st = (out, st')" by (cases "foldChunk c ch t st")
    have f1: "frame st st'" using frame_foldChunk[of st c ch t] fc by simp
    show ?thesis
    proof (cases out)
      case (Continue t')
      have "frame st' (st'\<lparr>tasks := AList.update c t' (tasks st')\<rparr>)" by (simp add: frame_def)
      with f1 show ?thesis using Some Next fc Continue
        by (simp add: runAnalysis_def) (rule frame_trans)
    next
      case Return
      with f1 frame_finally[of st' gt c t] show ?thesis using Some Next fc
        by (simp add: runAnalysis_def) (rule frame_trans)
    qed
  next
    case Done
    have "frame st (streamEnded t st)" by (simp add: streamEnded_def frame_refl frame_asp)
    with frame_finally[of "streamEnded t st" gt c t] show ?thesis using Some Done
      by (simp add: runAnalysis_def) (rule frame_trans)
  next
    case (Throws m)
    have "frame st (caught m t st)" by (simp add: caught_def frame_asp)
    with frame_finally[of "caught m t st" gt c t] show ?thesis using Some Throws
      by (simp add: runAnalysis_def) (rule frame_trans)
  qed
qed

lemma frame_retry: "frame st (retrySession k a st)"
proof (cases "map_of (sessions st) k")
  case None
  then show ?thesis by (simp add: retrySession_def frame_refl)
next
  case (Some r)
  let ?st1 = "saveSessions (assign r resetState st)"
  have "frame st ?st1" by (auto simp: frame_def comp_def resetState_def)
  then show ?thesis using Some frame_startSession[of ?st1 k]
    by (simp add: retrySession_def) (rule frame_trans)
qed

lemma wf_alloc_create:
  assumes "wf_store st" and "allocated st"
  shows "wf_store (snd (createSession k now p st)) \<and> allocated (snd (createSession k now p st))"
proof -
  have d: "distinct (map fst (sessions st))" using assms(1) by (simp add: wf_store_def)
  have d': "distinct (map fst (AList.update k (nextRef st) (sessions st)))"
    using d by (rule distinct_update)
  have mem: "\<And>k' r. (k', r) \<in> set (AList.update k (nextRef st) (sessions st))
                \<Longrightarrow> (k' = k \<and> r = nextRef st) \<or> (k' \<noteq> k \<and> (k', r) \<in> set (sessions st))"
  proof -
    fix k' r assume "(k', r) \<in> set (AList.update k (nextRef st) (sessions st))"
    then have "map_of (AList.update k (nextRef st) (sessions st)) k' = Some r"
      using d' by simp
    then have "((map_of (sessions st))(k \<mapsto> nextRef st)) k' = Some r" by (simp add: update_conv')
    then show "(k' = k \<and> r = nextRef st) \<or> (k' \<noteq> k \<and> (k', r) \<in> set (sessions st))"
      using d by (auto split: if_splits)
  qed
  have old: "\<And>k' r. (k', r) \<in> set (sessions st) \<Longrightarrow> r < nextRef st \<and> sid (heap st r) = k'"
    using assms by (auto simp: wf_store_def allocated_def)
  show ?thesis
    using d' by (auto simp: createSession_def Let_def wf_store_def allocated_def dest!: mem dest: old)
qed

lemma wf_alloc_delete:
  assumes "wf_store st" and "allocated st"
  shows "wf_store (snd (deleteSession k st)) \<and> allocated (snd (deleteSession k st))"
proof -
  have d: "distinct (map fst (sessions st))" using assms(1) by (simp add: wf_store_def)
  have sub: "set (AList.delete k (sessions st)) \<subseteq> set (sessions st)"
    by (auto simp: AList.delete_eq)
  have d': "distinct (map fst (AList.delete k (sessions st)))"
    using d by (rule distinct_delete)
  show ?thesis using assms d' sub
    by (auto simp: deleteSession_def Let_def wf_store_def allocated_def split: option.splits)
qed

lemma wf_alloc_initial: "wf_store initial \<and> allocated initial"
  by (simp add: wf_store_def allocated_def initial_def)

lemma dates_create:
  assumes "datesParse gt st" and "gt now \<noteq> None"
  shows "datesParse gt (snd (createSession k now p st))"
proof -
  have "\<And>xs. set (map snd (AList.update k (nextRef st) xs))
          \<subseteq> insert (nextRef st) (set (map snd xs))"
  proof -
    fix xs :: "(string \<times> nat) list"
    show "set (map snd (AList.update k (nextRef st) xs)) \<subseteq> insert (nextRef st) (set (map snd xs))"
      by (induction xs) auto
  qed
  then have "set (map snd (AList.update k (nextRef st) (sessions st)))
          \<subseteq> insert (nextRef st) (set (map snd (sessions st)))" .
  then have sub: "\<And>r. r \<in> set (map snd (AList.update k (nextRef st) (sessions st)))
                    \<Longrightarrow> r = nextRef st \<or> r \<in> set (map snd (sessions st))"
    by blast
  have old: "\<And>r. r \<in> set (map snd (sessions st)) \<Longrightarrow> gt (createdAt (heap st r)) \<noteq> None"
    using assms(1) unfolding datesParse_def by blast
  show ?thesis
    unfolding datesParse_def
  proof
    fix r assume "r \<in> set (map snd (sessions (snd (createSession k now p st))))"
    then have "r \<in> set (map snd (AList.update k (nextRef st) (sessions st)))"
      by (simp add: createSession_def Let_def)
    from sub[OF this] show "gt (createdAt (heap (snd (createSession k now p st)) r)) \<noteq> None"
      using assms(2) old by (auto simp: createSession_def Let_def)
  qed
qed

lemma dates_delete:
  assumes "datesParse gt st"
  shows "datesParse gt (snd (deleteSession k st))"
proof -
  have "set (AList.delete k (sessions st)) \<subseteq> set (sessions st)"
    by (auto simp: AList.delete_eq)
  then show ?thesis using assms
    by (auto simp: deleteSession_def Let_def datesParse_def split: option.splits)
qed

lemma wf_alloc_perform:
  assumes "wf_store st" and "allocated st"
  shows "wf_store (perform gt st op) \<and> allocated (perform gt st op)"
proof (cases op)
  case (CreateSession k now p)
  then show ?thesis using wf_alloc_create[OF assms] by simp
next
  case (StartSession k a)
  then show ?thesis using assms frame_startSession[of st k a]
    by (auto intro: frame_wf frame_allocated)
next
  case (RetrySession k a)
  then show ?thesis using assms frame_retry[of st k a]
    by (auto intro: frame_wf frame_allocated)
next
  case (DeleteSession k)
  then show ?thesis using wf_alloc_delete[OF assms] by simp
next
  case (Resume c f)
  then show ?thesis using assms frame_runAnalysis[of st gt c f]
    by (auto intro: frame_wf frame_allocated)
qed

lemma wf_store_reachable: "wf_store (foldl (perform gt) initial ops) \<and> allocated (foldl (perform gt) initial ops)"
proof (induction ops rule: rev_induct)
  case Nil
  then show ?case using wf_alloc_initial by simp
next
  case (snoc op ops)
  then show ?case using wf_alloc_perform by simp
qed

lemma dates_perform:
  assumes "datesParse gt st" and "readingsParse gt [op]"
  shows "datesParse gt (perform gt st op)"
proof (cases op)
  case (CreateSession k now p)
  then show ?thesis using assms dates_create[of gt st now k p] by simp
next
  case (StartSession k a)
  then show ?thesis using assms(1) frame_startSession[of st k a] by (auto intro: frame_dates)
next
  case (RetrySession k a)
  then show ?thesis using assms(1) frame_retry[of st k a] by (auto intro: frame_dates)
next
  case (DeleteSession k)
  then show ?thesis using dates_delete[OF assms(1)] by simp
next
  case (Resume c f)
  then show ?thesis using assms(1) frame_runAnalysis[of st gt c f] by (auto intro: frame_dates)
qed

lemma readingsParse_append:
  "readingsParse gt (ops @ ops') = (readingsParse gt ops \<and> readingsParse gt ops')"
  by (induction gt ops rule: readingsParse.induct) simp_all

lemma dates_reachable:
  "readingsParse gt ops \<Longrightarrow> datesParse gt (foldl (perform gt) initial ops)"
proof (induction ops rule: rev_induct)
  case Nil
  then show ?case by (simp add: datesParse_def initial_def)
next
  case (snoc op ops)
  then show ?case using dates_perform[of gt "foldl (perform gt) initial ops" op]
    by (simp add: readingsParse_append)
qed

section \<open>C1: one running session per user\<close>

text \<open>
  C1 says that no reachable state holds two running sessions of one named user. The
  code aims at that (\<^verbatim>\<open>getUserRunningSession\<close> is "used to limit one concurrent analysis
  task per user") and misses it: \<^verbatim>\<open>deleteSession\<close> frees the user's slot at once, while
  the cancelled task promotes the next queued session only when its next chunk arrives,
  and \<^verbatim>\<open>startNextQueuedSession\<close> does not look at the slot. After \<open>deleteThenSubmit\<close>
  Alice's sessions \<open>b\<close> and \<open>c\<close> are both running.
\<close>

theorem two_running_after_delete_and_promote:
  "map sid (runningOf ''alice'' (foldl (perform clock) initial deleteThenSubmit)) = [''b'', ''c'']"
  by code_simp

section \<open>C2: folding one stage of the feed\<close>

text \<open>
  C2: for a running session at the start of its run (no stage completed yet), whose task
  is live and not cancelled, folding \<^verbatim>\<open>node_start\<close>, two \<^verbatim>\<open>token\<close>s and \<^verbatim>\<open>node_end\<close> of
  one stage, whatever non-empty stage name and contents they carry: after the two tokens
  the report of the stage is their concatenation; after \<^verbatim>\<open>node_end\<close> it is the content
  of \<^verbatim>\<open>node_end\<close>, whether or not that equals the concatenation, the reports of the
  other stages are as before, \<open>progress\<close> is that one stage and \<open>currentAgent\<close> is
  \<open>getNextAgent\<close> of it, which is the stage that follows in \<open>AGENT_ORDER\<close>, and empty
  after the last. For "Market Analyst" that is the second stage.
\<close>

theorem fold_market_analyst_scenario:
  assumes "map_of (tasks st) signal = Some t"
    and "signal \<notin> aborted st"
    and "status (heap st (t_session t)) = Running"
    and "progress (heap st (t_session t)) = []"
    and "truthy a" and "truthy c1" and "truthy c2" and "truthy c"
  shows "let mid = heap (foldl (perform gt) st (butlast (stageFeed signal a c1 c2 c))) (t_session t);
             s' = heap (foldl (perform gt) st (stageFeed signal a c1 c2 c)) (t_session t)
         in map_of (reports mid) a = Some (c1 @ c2)
          \<and> progress mid = [] \<and> currentAgent mid = a
          \<and> map_of (reports s') a = Some c
          \<and> (\<forall>b. b \<noteq> a \<longrightarrow> map_of (reports s') b = map_of (reports (heap st (t_session t))) b)
          \<and> progress s' = [a]
          \<and> currentAgent s' = getNextAgent a
          \<and> status s' = Running
          \<and> getNextAgent ''Market Analyst'' = AGENT_ORDER ! 1
          \<and> (\<forall>i < length AGENT_ORDER. getNextAgent (AGENT_ORDER ! i)
                 = (if Suc i < length AGENT_ORDER then AGENT_ORDER ! Suc i else ''''))"
proof -
  have run: "let mid = heap (foldl (perform gt) st (butlast (stageFeed signal a c1 c2 c))) (t_session t);
             s' = heap (foldl (perform gt) st (stageFeed signal a c1 c2 c)) (t_session t)
         in map_of (reports mid) a = Some (c1 @ c2)
          \<and> progress mid = [] \<and> currentAgent mid = a
          \<and> map_of (reports s') a = Some c
          \<and> (\<forall>b. b \<noteq> a \<longrightarrow> map_of (reports s') b = map_of (reports (heap st (t_session t))) b)
          \<and> progress s' = [a]
          \<and> currentAgent s' = getNextAgent a
          \<and> status s' = Running"
    using assms
    by (simp add: stageFeed_def event_def runAnalysis_def foldChunk_def Let_def update_conv')
  have ma: "getNextAgent ''Market Analyst'' = AGENT_ORDER ! 1"
    by (simp add: next_MA AGENT_ORDER_def)
  show ?thesis using run ma getNextAgent_order by (simp add: Let_def)
qed

text \<open>
  C2 on Alice's running session \<open>a\<close>: the feed of the scenario, and the same feed with a
  \<^verbatim>\<open>node_end\<close> whose content differs from what the tokens had accumulated.
\<close>

theorem fold_market_analyst_scenario_witness:
  "map_of (tasks oneRunning) 0 = Some firstTask \<and> 0 \<notin> aborted oneRunning
   \<and> status (heap oneRunning 0) = Running \<and> progress (heap oneRunning 0) = []
   \<and> truthy ''Market Analyst'' \<and> truthy ''Price '' \<and> truthy ''is up.'' \<and> truthy ''Price is up.''
   \<and> map_of (reports (heap (foldl (perform clock) oneRunning
          (stageFeed 0 ''Market Analyst'' ''Price '' ''is up.'' ''Price is up.'')) 0)) ''Market Analyst''
        = Some ''Price is up.''
   \<and> progress (heap (foldl (perform clock) oneRunning
          (stageFeed 0 ''Market Analyst'' ''Price '' ''is up.'' ''Price is up.'')) 0) = [''Market Analyst'']
   \<and> currentAgent (heap (foldl (perform clock) oneRunning
          (stageFeed 0 ''Market Analyst'' ''Price '' ''is up.'' ''Price is up.'')) 0) = ''Social Analyst''
   \<and> map_of (reports (heap (foldl (perform clock) oneRunning
          (butlast (stageFeed 0 ''Market Analyst'' ''Price '' ''is up.'' ''Prices rose.''))) 0)) ''Market Analyst''
        = Some ''Price is up.''
   \<and> map_of (reports (heap (foldl (perform clock) oneRunning
          (stageFeed 0 ''Market Analyst'' ''Price '' ''is up.'' ''Prices rose.'')) 0)) ''Market Analyst''
        = Some ''Prices rose.''"
proof -
  have h1: "map_of (tasks oneRunning) 0 = Some firstTask" by code_simp
  have h2: "0 \<notin> aborted oneRunning" by code_simp
  have s: "t_session firstTask = 0" by (simp add: firstTask_def)
  have h3: "status (heap oneRunning (t_session firstTask)) = Running" unfolding s by code_simp
  have h4: "progress (heap oneRunning (t_session firstTask)) = []" unfolding s by code_simp
  have t: "truthy ''Market Analyst''" "truthy ''Price ''" "truthy ''is up.''"
          "truthy ''Price is up.''" "truthy ''Prices rose.''"
    by (simp_all add: truthy_def)
  from fold_market_analyst_scenario[OF h1 h2 h3 h4 t(1) t(2) t(3) t(4), of clock]
       fold_market_analyst_scenario[OF h1 h2 h3 h4 t(1) t(2) t(3) t(5), of clock]
       h1 h2 h3 h4 t
  show ?thesis by (simp add: s Let_def next_MA)
qed

section \<open>C3: who may read a session\<close>

text \<open>
  C3 says that a requester who is not an admin reads a session only if it is theirs, or if
  the session and the requester are both anonymous, and gets "not found" otherwise.
  \<^verbatim>\<open>getSession\<close> compares the two names only when both are non-empty. So a requester
  without a name (empty or undefined) reads Alice's session \<open>a\<close>, and Bob reads the
  session \<open>x\<close> that has no owner, while \<^verbatim>\<open>getAllSessions\<close> lists neither for them and
  an unknown id gives "not found". The comment on the check reads "Regular users can only
  access their own sessions".
\<close>

theorem getSession_reads_across_users:
  "userId (heap oneRunning 0) = ''alice''
   \<and> getSession ''a'' (Some '''') False oneRunning = Some 0
   \<and> getSession ''a'' None False oneRunning = Some 0
   \<and> getById ''a'' '''' False oneRunning = Json (Some (heap oneRunning 0))
   \<and> getAllSessions clock (Some '''') False oneRunning = []
   \<and> userId (heap twoAnonymous 0) = ''''
   \<and> getSession ''x'' (Some ''bob'') False twoAnonymous = Some 0
   \<and> getById ''x'' ''bob'' False twoAnonymous = Json (Some (heap twoAnonymous 0))
   \<and> getAllSessions clock (Some ''bob'') False twoAnonymous = []
   \<and> getSession ''zz'' (Some '''') False oneRunning = None
   \<and> getById ''zz'' '''' False oneRunning = NotFound404"
  by code_simp

section \<open>C4: anonymous submissions\<close>

text \<open>
  C4 says that \<^verbatim>\<open>startSession\<close> never queues a session without a user name. It does:
  \<^verbatim>\<open>getUserRunningSession('')\<close> finds the running anonymous session \<open>x\<close>, so \<open>y\<close> is
  queued; and since \<^verbatim>\<open>finally\<close> promotes only for a non-empty user name, \<open>y\<close> is still
  queued after \<open>x\<close> completed.
\<close>

theorem anonymous_session_is_queued:
  "map (\<lambda>s. (sid s, userId s, status s)) (snapshot twoAnonymous)
     = [(''x'', '''', Running), (''y'', '''', Queued)]
   \<and> map (\<lambda>s. (sid s, status s))
        (snapshot (perform clock twoAnonymous (Resume 0 (event Complete None (Some ''BUY'')))))
     = [(''x'', Completed), (''y'', Queued)]"
  by code_simp

section \<open>C5: promotion of the oldest queued session\<close>

text \<open>
  C5: the task of a running session of a named user \<open>u\<close> ends (a terminal event, the end
  of the stream, an exception, or a chunk after cancellation), the store is well formed,
  and \<open>u\<close> has queued sessions in the store, whose dates all parse (as the store and the
  dates are in every state reached from \<open>initial\<close>: \<open>wf_store_reachable\<close>,
  \<open>dates_reachable\<close>). Then there is one of
  them, \<open>q\<close>, with the smallest creation time among them, that the step sets running
  through \<^verbatim>\<open>startSessionNow\<close> (first stage as \<open>currentAgent\<close>, a new task under the next
  controller); every other object but the ended session itself is unchanged, so no other
  queued session changes status; and unless the step was a cancelled chunk, the ended
  session is completed or in error.
\<close>

theorem promote_oldest_queued_on_task_end:
  assumes wf: "wf_store st"
    and task: "map_of (tasks st) signal = Some t"
    and ends: "endsTask signal f st"
    and run: "status (heap st (t_session t)) = Running"
    and owner: "userId (heap st (t_session t)) = u" "truthy u"
    and valid: "\<forall>r\<in>set (map snd (sessions st)). status (heap st r) = Queued \<and> userId (heap st r) = u
                  \<longrightarrow> gt (createdAt (heap st r)) \<noteq> None"
    and some: "\<exists>r\<in>set (map snd (sessions st)). status (heap st r) = Queued \<and> userId (heap st r) = u"
  shows "\<exists>q tq. q \<in> set (map snd (sessions st)) \<and> status (heap st q) = Queued \<and> userId (heap st q) = u
           \<and> gt (createdAt (heap st q)) = Some tq
           \<and> (\<forall>r'\<in>set (map snd (sessions st)). status (heap st r') = Queued \<and> userId (heap st r') = u \<longrightarrow>
                 (\<exists>t'. gt (createdAt (heap st r')) = Some t' \<and> tq \<le> t'))
           \<and> heap (runAnalysis gt signal f st) q
                = (heap st q)\<lparr>status := Running, currentAgent := ''Market Analyst''\<rparr>
           \<and> (\<forall>r'. r' \<noteq> q \<and> r' \<noteq> t_session t \<longrightarrow> heap (runAnalysis gt signal f st) r' = heap st r')
           \<and> ((\<forall>ch. f = Next ch \<longrightarrow> signal \<notin> aborted st) \<longrightarrow>
                 status (heap (runAnalysis gt signal f st) (t_session t)) = Completed
               \<or> status (heap (runAnalysis gt signal f st) (t_session t)) = Error)
           \<and> sessions (runAnalysis gt signal f st) = sessions st
           \<and> map_of (tasks (runAnalysis gt signal f st)) (nextController st) =
               Some \<lparr>t_sessionId = sid (heap st q), t_session = q,
                     t_analysts = (case x_analysts (heap st q) of None \<Rightarrow> defaultAnalysts | Some a \<Rightarrow> a),
                     t_currentAgent = '''', t_accumulatedContent = '''', t_tokenCount = 0\<rparr>"
proof -
  from runAnalysis_ends[OF task ends run, of gt] obtain st1 s1 where
    eq: "runAnalysis gt signal f st = finallyClause gt signal t st1"
    and h1: "heap st1 = (heap st)(t_session t := s1)" and k1: "sessions st1 = sessions st"
    and c1: "nextController st1 = nextController st"
    and s1: "sid s1 = sid (heap st (t_session t))" "userId s1 = userId (heap st (t_session t))"
            "status s1 \<noteq> Queued"
    and trm: "(\<forall>ch. f = Next ch \<longrightarrow> signal \<notin> aborted st) \<longrightarrow> status s1 = Completed \<or> status s1 = Error"
    by (elim exE conjE) (rule that)
  have s1u: "userId s1 = u" using s1(2) owner(1) by simp
  from promote_after_update[OF wf h1 k1 c1 s1(1) s1u s1(3) refl run owner valid some, of signal]
  obtain q tq where
    q: "q \<in> set (map snd (sessions st))" "status (heap st q) = Queued" "userId (heap st q) = u"
       "gt (createdAt (heap st q)) = Some tq"
    and low: "\<forall>r'\<in>set (map snd (sessions st)). status (heap st r') = Queued \<and> userId (heap st r') = u \<longrightarrow>
                 (\<exists>t'. gt (createdAt (heap st r')) = Some t' \<and> tq \<le> t')"
    and hp: "heap (finallyClause gt signal t st1)
                = (heap st)(t_session t := s1, q := (heap st q)\<lparr>status := Running, currentAgent := ''Market Analyst''\<rparr>)"
    and ks: "sessions (finallyClause gt signal t st1) = sessions st"
    and tk: "map_of (tasks (finallyClause gt signal t st1)) (nextController st) =
               Some \<lparr>t_sessionId = sid (heap st q), t_session = q,
                     t_analysts = (case x_analysts (heap st q) of None \<Rightarrow> defaultAnalysts | Some a \<Rightarrow> a),
                     t_currentAgent = '''', t_accumulatedContent = '''', t_tokenCount = 0\<rparr>"
    by (elim exE conjE) (rule that)
  have ne: "q \<noteq> t_session t" using q(2) run by auto
  have a: "heap (runAnalysis gt signal f st) q
                = (heap st q)\<lparr>status := Running, currentAgent := ''Market Analyst''\<rparr>"
    unfolding eq hp by simp
  have b: "\<forall>r'. r' \<noteq> q \<and> r' \<noteq> t_session t \<longrightarrow> heap (runAnalysis gt signal f st) r' = heap st r'"
    unfolding eq hp by simp
  have c: "(\<forall>ch. f = Next ch \<longrightarrow> signal \<notin> aborted st) \<longrightarrow>
                 status (heap (runAnalysis gt signal f st) (t_session t)) = Completed
               \<or> status (heap (runAnalysis gt signal f st) (t_session t)) = Error"
    unfolding eq hp using trm ne by simp
  show ?thesis using q low a b c ks tk unfolding eq
    by (intro exI[of _ q] exI[of _ tq] conjI)
qed

text \<open>
  C5 on \<open>twoQueued\<close>: when \<open>a\<close> completes, \<open>b\<close> (reference 1, the older) runs and \<open>c\<close>
  (reference 2) stays queued.
\<close>

theorem promote_oldest_queued_on_task_end_witness:
  "wf_store twoQueued \<and> map_of (tasks twoQueued) 0 = Some firstTask
   \<and> endsTask 0 (event Complete None (Some ''BUY'')) twoQueued
   \<and> map (\<lambda>r. (status (heap twoQueued r), userId (heap twoQueued r), createdAt (heap twoQueued r)))
         (map snd (sessions twoQueued))
       = [(Running, ''alice'', ''2024-05-01 10:00:00''),
          (Queued, ''alice'', ''2024-05-01 10:00:05''),
          (Queued, ''alice'', ''2024-05-01 10:00:09'')]
   \<and> status (heap (runAnalysis clock 0 (event Complete None (Some ''BUY'')) twoQueued) 1) = Running
   \<and> status (heap (runAnalysis clock 0 (event Complete None (Some ''BUY'')) twoQueued) 2) = Queued"
proof -
  let ?f = "event Complete None (Some ''BUY'')"
  have wf: "wf_store twoQueued" by code_simp
  have task: "map_of (tasks twoQueued) 0 = Some firstTask" by code_simp
  have ends: "endsTask 0 ?f twoQueued" by code_simp
  have s: "t_session firstTask = 0" by (simp add: firstTask_def)
  have run: "status (heap twoQueued (t_session firstTask)) = Running" unfolding s by code_simp
  have owner: "userId (heap twoQueued (t_session firstTask)) = ''alice''" unfolding s by code_simp
  have tr: "truthy ''alice''" by (simp add: truthy_def)
  have refs: "map snd (sessions twoQueued) = [0, 1, 2]" by code_simp
  have tab: "map (\<lambda>r. (status (heap twoQueued r), userId (heap twoQueued r), createdAt (heap twoQueued r)))
         (map snd (sessions twoQueued))
       = [(Running, ''alice'', ''2024-05-01 10:00:00''),
          (Queued, ''alice'', ''2024-05-01 10:00:05''),
          (Queued, ''alice'', ''2024-05-01 10:00:09'')]" by code_simp
  have c1: "clock ''2024-05-01 10:00:05'' = Some 1714557605000" by code_simp
  have c2: "clock ''2024-05-01 10:00:09'' = Some 1714557609000" by code_simp
  have f0: "status (heap twoQueued 0) = Running"
    and f1: "status (heap twoQueued 1) = Queued" "userId (heap twoQueued 1) = ''alice''"
            "createdAt (heap twoQueued 1) = ''2024-05-01 10:00:05''"
    and f2: "status (heap twoQueued 2) = Queued" "userId (heap twoQueued 2) = ''alice''"
            "createdAt (heap twoQueued 2) = ''2024-05-01 10:00:09''"
    using tab unfolding refs by simp_all
  have valid: "\<forall>r\<in>set (map snd (sessions twoQueued)).
                 status (heap twoQueued r) = Queued \<and> userId (heap twoQueued r) = ''alice''
                  \<longrightarrow> clock (createdAt (heap twoQueued r)) \<noteq> None"
    unfolding refs using f0 f1 f2 c1 c2 by simp
  have some: "\<exists>r\<in>set (map snd (sessions twoQueued)).
                 status (heap twoQueued r) = Queued \<and> userId (heap twoQueued r) = ''alice''"
    unfolding refs using f1 by simp
  from promote_oldest_queued_on_task_end[OF wf task ends run owner tr valid some]
  obtain q tq where
    q: "q \<in> set (map snd (sessions twoQueued))" "status (heap twoQueued q) = Queued"
       "clock (createdAt (heap twoQueued q)) = Some tq"
    and low: "\<forall>r'\<in>set (map snd (sessions twoQueued)).
                 status (heap twoQueued r') = Queued \<and> userId (heap twoQueued r') = ''alice'' \<longrightarrow>
                 (\<exists>t'. clock (createdAt (heap twoQueued r')) = Some t' \<and> tq \<le> t')"
    and hq: "heap (runAnalysis clock 0 ?f twoQueued) q
                = (heap twoQueued q)\<lparr>status := Running, currentAgent := ''Market Analyst''\<rparr>"
    and others: "\<forall>r'. r' \<noteq> q \<and> r' \<noteq> t_session firstTask \<longrightarrow>
                   heap (runAnalysis clock 0 ?f twoQueued) r' = heap twoQueued r'"
    by (elim exE conjE) (rule that)
  from low f1 c1 have "tq \<le> 1714557605000" unfolding refs by simp
  moreover from q have "q = 1 \<or> q = 2" unfolding refs using f0 by auto
  ultimately have q1: "q = 1" using q(3) f2 c2 by auto
  have a: "status (heap (runAnalysis clock 0 ?f twoQueued) 1) = Running"
    using hq unfolding q1 by simp
  have b: "status (heap (runAnalysis clock 0 ?f twoQueued) 2) = Queued"
    using others f2(1) unfolding q1 s by simp
  from wf task ends tab a b show ?thesis by simp
qed

section \<open>C6: decision and status\<close>

text \<open>
  C6 says that \<open>decision\<close> is non-empty exactly when the status is completed, also after
  a feed that ends without a terminal event. On that path the code sets the status and
  leaves \<open>decision\<close> empty, although the \<^verbatim>\<open>complete\<close> case falls back to \<^verbatim>\<open>HOLD\<close> when the
  event carries no content: the stored session \<open>a\<close> ends completed with no decision.
\<close>

theorem silent_end_completed_without_decision:
  "status (heap (perform clock oneRunning (Resume 0 Done)) 0) = Completed
   \<and> decision (heap (perform clock oneRunning (Resume 0 Done)) 0) = ''''
   \<and> map sid (snapshot (perform clock oneRunning (Resume 0 Done))) = [''a'']
   \<and> decision (heap (perform clock oneRunning (Resume 0 (event Complete None None))) 0) = ''HOLD''"
  by code_simp

section \<open>C7: the file after each mutation\<close>

text \<open>
  C7 says that the file equals the store after every mutation, the token's included.
  Folding a token assigns \<open>reports\<close> and publishes without saving: the file of
  \<open>oneRunning\<close> matches the store before the token and not after it.
\<close>

theorem token_fold_not_persisted:
  "synced oneRunning
   \<and> \<not> synced (perform clock oneRunning (Resume 0 (event Token (Some ''Market Analyst'') (Some ''Price ''))))"
  by code_simp

text \<open>
  C7, amended: every operation other than the resumption of a task with a \<^verbatim>\<open>token\<close>
  chunk (creating, starting, retrying, deleting, and every other resumption, whatever
  the feed gives) ends with the file equal to the store, unless it changed neither the
  stored records nor the file; so it leaves the file equal to the store if it was
  before.
\<close>

theorem save_after_every_step_but_token:
  assumes "\<not> isTokenFold op"
  shows "savedOrUntouched st (perform gt st op)
       \<and> (synced st \<longrightarrow> synced (perform gt st op))"
proof -
  have a: "savedOrUntouched st (perform gt st op)"
  proof (cases op)
    case (CreateSession k now p)
    then show ?thesis by (simp add: sou_synced synced_create)
  next
    case (StartSession k a)
    then show ?thesis by (simp add: sou_startSession)
  next
    case (RetrySession k a)
    then show ?thesis by (simp add: sou_retry)
  next
    case (DeleteSession k)
    then show ?thesis by (simp add: sou_delete)
  next
    case (Resume c f)
    with assms have "\<forall>ch. f = Next ch \<longrightarrow> ctype ch \<noteq> Token"
      by (auto simp: isTokenFold_def)
    with Resume show ?thesis by (simp add: sou_runAnalysis)
  qed
  then show ?thesis by (auto simp: savedOrUntouched_def synced_def)
qed

text \<open>C7, amended, on \<open>oneRunning\<close> and a \<^verbatim>\<open>node_end\<close>.\<close>

theorem save_after_every_step_but_token_witness:
  "synced oneRunning
   \<and> \<not> isTokenFold (Resume 0 (event NodeEnd (Some ''Market Analyst'') (Some ''Price is up.'')))
   \<and> synced (perform clock oneRunning (Resume 0 (event NodeEnd (Some ''Market Analyst'') (Some ''Price is up.''))))"
proof -
  have h1: "synced oneRunning" by code_simp
  have h2: "\<not> isTokenFold (Resume 0 (event NodeEnd (Some ''Market Analyst'') (Some ''Price is up.'')))"
    by (simp add: isTokenFold_def event_def)
  from save_after_every_step_but_token[OF h2, of oneRunning clock] h1 h2 show ?thesis by simp
qed

section \<open>C8: retry\<close>

text \<open>
  C8: for a session the requester may read, the retry route answers 400 and changes
  nothing unless the status is \<open>Error\<close>. From \<open>Error\<close> it resets \<open>progress\<close>, \<open>reports\<close>,
  \<open>decision\<close>, \<open>errorMsg\<close> and \<open>currentAgent\<close>, sets the status to \<open>Pending\<close>, saves, and
  then calls \<^verbatim>\<open>startSession\<close>, the admission of a new submission; the session comes out
  queued, or running at the first stage, with the other four fields still empty.
\<close>

theorem postRetry_only_from_error:
  assumes "getSession sessionId (Some username) isAdmin st = Some r"
  shows "if status (heap st r) = Error
         then (let st0 = saveSessions (assign r resetState st);
                   st' = startSession sessionId defaultAnalysts st0;
                   s' = heap st' r
               in postRetry sessionId username isAdmin st = (Json (Some s'), st')
                \<and> heap st0 r = (heap st r)\<lparr>status := Pending, errorMsg := '''', progress := [],
                       reports := [], decision := '''', currentAgent := ''''\<rparr>
                \<and> (status s' = Queued \<and> currentAgent s' = ''''
                   \<or> status s' = Running \<and> currentAgent s' = ''Market Analyst'')
                \<and> progress s' = [] \<and> reports s' = [] \<and> decision s' = '''' \<and> errorMsg s' = '''')
         else postRetry sessionId username isAdmin st = (BadRequest400, st)"
proof -
  from assms have look: "map_of (sessions st) sessionId = Some r"
    by (auto simp: getSession_def split: option.splits if_splits)
  show ?thesis
  proof (cases "status (heap st r) = Error")
    case False
    then show ?thesis using assms by (simp add: postRetry_def)
  next
    case True
    then show ?thesis using assms look
      by (auto simp: postRetry_def retrySession_def startSession_def startSessionNow_def
            getSession_def resetState_def Let_def AGENT_ORDER_def truthy_def
            split: option.splits if_splits)
  qed
qed

text \<open>C8 on the failed session \<open>a\<close> (retried) and on the running one (refused).\<close>

theorem postRetry_only_from_error_witness:
  "getSession ''a'' (Some ''alice'') False failedState = Some 0
   \<and> status (heap failedState 0) = Error
   \<and> fst (postRetry ''a'' ''alice'' False failedState)
       = Json (Some (heap (startSession ''a'' defaultAnalysts (saveSessions (assign 0 resetState failedState))) 0))
   \<and> getSession ''a'' (Some ''alice'') False oneRunning = Some 0
   \<and> status (heap oneRunning 0) = Running
   \<and> postRetry ''a'' ''alice'' False oneRunning = (BadRequest400, oneRunning)"
proof -
  have h1: "getSession ''a'' (Some ''alice'') False failedState = Some 0" by code_simp
  have e1: "status (heap failedState 0) = Error" by code_simp
  have h2: "getSession ''a'' (Some ''alice'') False oneRunning = Some 0" by code_simp
  have e2: "status (heap oneRunning 0) = Running" by code_simp
  have a: "fst (postRetry ''a'' ''alice'' False failedState)
       = Json (Some (heap (startSession ''a'' defaultAnalysts (saveSessions (assign 0 resetState failedState))) 0))"
    using postRetry_only_from_error[OF h1] e1 by (simp add: Let_def)
  have b: "postRetry ''a'' ''alice'' False oneRunning = (BadRequest400, oneRunning)"
    using postRetry_only_from_error[OF h2] e2 by simp
  from h1 e1 a h2 e2 b show ?thesis by simp
qed

section \<open>C9: queue positions in the list\<close>

text \<open>
  C9 says that queue positions count from the user's oldest queued session. The counter
  runs over the list that \<^verbatim>\<open>getAllSessions\<close> sorted newest first, so Alice's newer \<open>c\<close>
  gets position 1 and the older \<open>b\<close> position 2; yet \<open>b\<close> is the one that
  \<^verbatim>\<open>startNextQueuedSession\<close> ("the earliest created queued session") starts when \<open>a\<close>
  completes. The summary type has no \<open>reports\<close> field.
\<close>

theorem queue_position_newest_first:
  "map (\<lambda>s. (sum_id s, sum_createdAt s, sum_status s, queuePosition s))
       (getAllSessionSummaries clock (Some ''alice'') False twoQueued)
     = [(''c'', ''2024-05-01 10:00:09'', Queued, Some 1),
        (''b'', ''2024-05-01 10:00:05'', Queued, Some 2),
        (''a'', ''2024-05-01 10:00:00'', Running, None)]
   \<and> map (\<lambda>s. (sid s, status s))
        (snapshot (perform clock twoQueued (Resume 0 (event Complete None (Some ''BUY'')))))
     = [(''a'', Completed), (''b'', Running), (''c'', Queued)]"
  by code_simp

section \<open>C10: events without agent or content\<close>

text \<open>
  C10: when a live task that was not cancelled folds a \<^verbatim>\<open>token\<close> or \<^verbatim>\<open>node_end\<close> whose
  agent or content is null or empty, nothing changes but the task's local variables: the
  session object, the store, the file and the publish log are as before.
\<close>

theorem empty_token_or_node_end_is_noop:
  assumes "map_of (tasks st) signal = Some t"
    and "signal \<notin> aborted st"
    and "ctype ch = Token \<or> ctype ch = NodeEnd"
    and "\<not> (truthy_opt (agent ch) \<and> truthy_opt (content ch))"
  shows "(runAnalysis gt signal (Next ch) st)\<lparr>tasks := tasks st\<rparr> = st
       \<and> heap (runAnalysis gt signal (Next ch) st) (t_session t) = heap st (t_session t)
       \<and> sessionsFile (runAnalysis gt signal (Next ch) st) = sessionsFile st
       \<and> published (runAnalysis gt signal (Next ch) st) = published st"
proof -
  obtain t' where "foldChunk signal ch t st = (Continue t', st)"
    using foldChunk_empty[OF assms(3,4,2)] by blast
  then show ?thesis using assms(1) by (simp add: runAnalysis_def)
qed

text \<open>C10 on \<open>oneRunning\<close>: a \<^verbatim>\<open>node_end\<close> with empty content and a \<^verbatim>\<open>token\<close> without agent.\<close>

theorem empty_token_or_node_end_is_noop_witness:
  "map_of (tasks oneRunning) 0 = Some firstTask \<and> 0 \<notin> aborted oneRunning
   \<and> heap (runAnalysis clock 0 (event NodeEnd (Some ''Market Analyst'') (Some '''')) oneRunning) 0
       = heap oneRunning 0
   \<and> heap (runAnalysis clock 0 (event Token None (Some ''Price '')) oneRunning) 0
       = heap oneRunning 0"
proof -
  have h1: "map_of (tasks oneRunning) 0 = Some firstTask" by code_simp
  have h2: "0 \<notin> aborted oneRunning" by code_simp
  have s: "t_session firstTask = 0" by (simp add: firstTask_def)
  have a: "heap (runAnalysis clock 0 (event NodeEnd (Some ''Market Analyst'') (Some '''')) oneRunning) 0
       = heap oneRunning 0"
    using empty_token_or_node_end_is_noop[OF h1 h2,
            of "\<lparr>ctype = NodeEnd, agent = Some ''Market Analyst'', content = Some ''''\<rparr>" clock]
    by (simp add: event_def truthy_opt_def truthy_def s)
  have b: "heap (runAnalysis clock 0 (event Token None (Some ''Price '')) oneRunning) 0
       = heap oneRunning 0"
    using empty_token_or_node_end_is_noop[OF h1 h2,
            of "\<lparr>ctype = Token, agent = None, content = Some ''Price ''\<rparr>" clock]
    by (simp add: event_def truthy_opt_def truthy_def s)
  from h1 h2 a b show ?thesis by simp
qed

end
